theory Spec2Isabelle
  imports Main "HOL-Library.Monad_Syntax"
begin

section \<open>Board model (shared/src/types.ts, services/gameService.ts)\<close>

text \<open>
  The repository carries two revisions of the rule engine. This development follows the
  revision in which both players share the home quadrant at indices 0..5 and move towards
  index 0 (src/unnamed/part_008, the convention the specification adopts), together with
  the matching revision of the socket handler (the first of the two in
  socket/gameHandler.ts) and the dice-duel service (src/unnamed/part_007). From the other
  revision (services/gameService.ts, one home quadrant per player) only \<open>initializeBoard\<close>
  is embedded, under the name \<open>initializeBoard_separate_home\<close>; its \<open>makeMove\<close> and
  \<open>checkWinCondition\<close> are the same text as in the revision followed here.

  JavaScript numbers that hold checker counts, indices and pip values are modelled as
  \<open>int\<close>. A read of \<open>board.points[i][player - 1]\<close> with \<open>i\<close> outside the array
  raises a TypeError in the source; a function of the model that can raise returns
  \<open>None\<close> for the exception and \<open>Some v\<close> for a normal return of \<open>v\<close>.
\<close>

datatype Player = P1 | P2

text \<open>\<open>from: number | 'bar'\<close> and \<open>to: number | 'off'\<close>.\<close>

datatype Origin = Bar | From int

datatype Dest = Off | To int

text \<open>
  \<open>BackgammonBoard\<close>. Its fields \<open>dice\<close>, \<open>current_player\<close> and \<open>game_id\<close>, which the
  rule engine never reads, carry the prefix \<open>board_\<close>: the room and the dice-duel state
  have fields of the same names.
\<close>

record BackgammonBoard =
  points :: "(int \<times> int) list"
  bar :: "int \<times> int"
  borne_off :: "int \<times> int"
  board_dice :: "(int \<times> int) option"
  board_current_player :: Player
  board_game_id :: string

text \<open>\<open>player === 1 ? 2 : 1\<close>\<close>

fun opponent :: "Player \<Rightarrow> Player" where
  "opponent P1 = P2"
| "opponent P2 = P1"

text \<open>
  \<open>pair[player - 1]\<close>, and \<open>bar[player === 1 ? 'player1' : 'player2']\<close>: the component
  of a per-player pair, and its replacement.
\<close>

fun sel :: "Player \<Rightarrow> 'a \<times> 'a \<Rightarrow> 'a" where
  "sel P1 (a, b) = a"
| "sel P2 (a, b) = b"

fun upd :: "Player \<Rightarrow> 'a \<Rightarrow> 'a \<times> 'a \<Rightarrow> 'a \<times> 'a" where
  "upd P1 v (a, b) = (v, b)"
| "upd P2 v (a, b) = (a, v)"

text \<open>Read of \<open>board.points[i][player - 1]\<close>; TypeError outside the array.\<close>

definition pointAt :: "BackgammonBoard \<Rightarrow> int \<Rightarrow> Player \<Rightarrow> int option" where
  "pointAt b i p =
     (if 0 \<le> i \<and> i < int (length (points b)) then Some (sel p (points b ! nat i)) else None)"

text \<open>Write \<open>board.points[i][player - 1] = v\<close>; TypeError outside the array.\<close>

definition setPoint :: "BackgammonBoard \<Rightarrow> int \<Rightarrow> Player \<Rightarrow> int \<Rightarrow> BackgammonBoard option" where
  "setPoint b i p v =
     (if 0 \<le> i \<and> i < int (length (points b))
      then Some (b\<lparr>points := (points b)[nat i := upd p v (points b ! nat i)]\<rparr>)
      else None)"

text \<open>
  \<open>Array(24).fill(null).map(() => [0, 0])\<close> followed by the eight assignments of
  \<open>initializeBoard\<close> (shared-home revision).
\<close>

definition emptyPoints :: "(int \<times> int) list" where
  "emptyPoints = replicate 24 (0, 0)"

definition initializeBoard :: BackgammonBoard where
  "initializeBoard =
     \<lparr> points = emptyPoints
          [6 := (0, 5), 8 := (3, 0), 12 := (5, 0), 17 := (0, 2),
           5 := (5, 0), 3 := (0, 3), 18 := (0, 5), 23 := (2, 0)],
       bar = (0, 0),
       borne_off = (0, 0),
       board_dice = None,
       board_current_player = P1,
       board_game_id = [] \<rparr>"

text \<open>The same function in the revision with one home quadrant per player.\<close>

definition initializeBoard_separate_home :: BackgammonBoard where
  "initializeBoard_separate_home =
     \<lparr> points = emptyPoints
          [23 := (2, 0), 12 := (5, 0), 7 := (3, 0), 5 := (5, 0),
           0 := (0, 2), 11 := (0, 5), 16 := (0, 3), 18 := (0, 5)],
       bar = (0, 0),
       borne_off = (0, 0),
       board_dice = None,
       board_current_player = P1,
       board_game_id = [] \<rparr>"

text \<open>\<open>isInHomeBoard\<close>: indices 0..5 for both players.\<close>

definition isInHomeBoard :: "int \<Rightarrow> Player \<Rightarrow> bool" where
  "isInHomeBoard pointIndex player = (pointIndex \<ge> 0 \<and> pointIndex \<le> 5)"

text \<open>
  The loop of \<open>allInHomeBoard\<close> over the indices still to visit: \<open>Some False\<close> is the
  early \<open>return false\<close>, \<open>Some True\<close> is falling out of the loop.
\<close>

fun outsideHomeClear :: "BackgammonBoard \<Rightarrow> Player \<Rightarrow> int list \<Rightarrow> bool option" where
  "outsideHomeClear board player [] = Some True"
| "outsideHomeClear board player (i # rest) =
     (if i < 0 \<or> i > 5
      then (case pointAt board i player of
              None \<Rightarrow> None
            | Some c \<Rightarrow> if c > 0 then Some False else outsideHomeClear board player rest)
      else outsideHomeClear board player rest)"

definition allInHomeBoard :: "BackgammonBoard \<Rightarrow> Player \<Rightarrow> bool option" where
  "allInHomeBoard board player =
     (case outsideHomeClear board player [0..23] of
        None \<Rightarrow> None
      | Some False \<Rightarrow> Some False
      | Some True \<Rightarrow> Some (sel player (bar board) = 0))"

text \<open>
  The loop of the overshoot rule in \<open>isValidMove\<close>,
  \<open>for (let i = from + 1; i <= homeEnd; i++) if (board.points[i][player - 1] > 0) return false\<close>,
  over the indices still to visit.
\<close>

fun higherPointsClear :: "BackgammonBoard \<Rightarrow> Player \<Rightarrow> int list \<Rightarrow> bool option" where
  "higherPointsClear board player [] = Some True"
| "higherPointsClear board player (i # rest) =
     (case pointAt board i player of
        None \<Rightarrow> None
      | Some c \<Rightarrow> if c > 0 then Some False else higherPointsClear board player rest)"

section \<open>Rule engine\<close>

text \<open>\<open>isValidMove(board, from, to, player, diceValue?)\<close>; \<open>None\<close> as die is \<open>undefined\<close>.\<close>

definition isValidMove ::
  "BackgammonBoard \<Rightarrow> Origin \<Rightarrow> Dest \<Rightarrow> Player \<Rightarrow> int option \<Rightarrow> bool option" where
  "isValidMove board from to player diceValue =
     (case from of
        Bar \<Rightarrow>
          (case to of
             Off \<Rightarrow> Some False
           | To t \<Rightarrow>
               if t < 18 \<or> t > 23 then Some False
               else do {
                 c \<leftarrow> pointAt board t (opponent player);
                 if c > 1 then Some False
                 else if sel player (bar board) = 0 then Some False
                 else (case diceValue of
                         Some d \<Rightarrow> if t \<noteq> (24 - d) - 1 then Some False else Some True
                       | None \<Rightarrow> Some True)
               })
      | From f \<Rightarrow>
          (case to of
             Off \<Rightarrow> do {
               home \<leftarrow> allInHomeBoard board player;
               if \<not> home then Some False
               else if \<not> isInHomeBoard f player then Some False
               else do {
                 c \<leftarrow> pointAt board f player;
                 if c = 0 then Some False
                 else (case diceValue of
                         None \<Rightarrow> Some True
                       | Some d \<Rightarrow>
                           if f + 1 = d then Some True
                           else if f + 1 < d then higherPointsClear board player [f + 1..5]
                           else Some False)
               }
             }
           | To t \<Rightarrow>
               if f < 0 \<or> f > 23 \<or> t < 0 \<or> t > 23 then Some False
               else do {
                 c \<leftarrow> pointAt board f player;
                 if c = 0 then Some False
                 else if t \<ge> f then Some False
                 else do {
                   oc \<leftarrow> pointAt board t (opponent player);
                   if oc > 1 then Some False
                   else (case diceValue of
                           Some d \<Rightarrow> if f - t \<noteq> d then Some False else Some True
                         | None \<Rightarrow> Some True)
                 }
               }))"

text \<open>
  The blot rule shared by the bar and the regular branch of \<open>makeMove\<close>: a single
  opposing checker on \<open>to\<close> goes to the opponent's bar.
\<close>

definition hitBlot :: "BackgammonBoard \<Rightarrow> int \<Rightarrow> Player \<Rightarrow> BackgammonBoard option" where
  "hitBlot nb t player =
     do {
       oc \<leftarrow> pointAt nb t (opponent player);
       if oc = 1
       then do {
         nb1 \<leftarrow> setPoint nb t (opponent player) 0;
         Some (nb1\<lparr>bar := upd (opponent player) (sel (opponent player) (bar nb1) + 1) (bar nb1)\<rparr>)
       }
       else Some nb
     }"

text \<open>\<open>newBoard.points[i][player - 1]++\<close> and \<open>--\<close>.\<close>

definition addPoint :: "BackgammonBoard \<Rightarrow> int \<Rightarrow> Player \<Rightarrow> int \<Rightarrow> BackgammonBoard option" where
  "addPoint nb i player k = do { c \<leftarrow> pointAt nb i player; setPoint nb i player (c + k) }"

text \<open>
  \<open>makeMove\<close> works on a deep copy of its argument and returns the copy; the model
  returns the new value. The die value is a parameter the body never reads.
\<close>

definition makeMove ::
  "BackgammonBoard \<Rightarrow> Origin \<Rightarrow> Dest \<Rightarrow> Player \<Rightarrow> int \<Rightarrow> BackgammonBoard option" where
  "makeMove board from to player diceValue =
     (case from of
        Bar \<Rightarrow>
          (case to of
             Off \<Rightarrow> Some board
           | To t \<Rightarrow> do {
               nb \<leftarrow> Some (board\<lparr>bar := upd player (sel player (bar board) - 1) (bar board)\<rparr>);
               nb \<leftarrow> hitBlot nb t player;
               addPoint nb t player 1
             })
      | From f \<Rightarrow>
          (case to of
             Off \<Rightarrow> do {
               nb \<leftarrow> addPoint board f player (- 1);
               Some (nb\<lparr>borne_off := upd player (sel player (borne_off nb) + 1) (borne_off nb)\<rparr>)
             }
           | To t \<Rightarrow> do {
               nb \<leftarrow> addPoint board f player (- 1);
               nb \<leftarrow> hitBlot nb t player;
               addPoint nb t player 1
             }))"

text \<open>\<open>checkWinCondition\<close>\<close>

definition checkWinCondition :: "BackgammonBoard \<Rightarrow> Player option" where
  "checkWinCondition board =
     (if fst (borne_off board) = 15 then Some P1
      else if snd (borne_off board) = 15 then Some P2
      else None)"

section \<open>The fifteen-checker count\<close>

definition onPoints :: "BackgammonBoard \<Rightarrow> Player \<Rightarrow> int" where
  "onPoints b p = sum_list (map (sel p) (points b))"

definition checkers :: "BackgammonBoard \<Rightarrow> Player \<Rightarrow> int" where
  "checkers b p = onPoints b p + sel p (bar b) + sel p (borne_off b)"

definition fifteen :: "BackgammonBoard \<Rightarrow> bool" where
  "fifteen b = (length (points b) = 24 \<and> checkers b P1 = 15 \<and> checkers b P2 = 15)"

text \<open>
  Boards reachable by moves that \<open>isValidMove\<close> accepts from the initial board, as
  \<open>initializeBoard\<close> returns it (\<open>gid\<close> empty) or with a game's id written into it, as the
  join handler stores it in a room.
\<close>

inductive reachable :: "BackgammonBoard \<Rightarrow> bool" where
  init: "reachable (initializeBoard\<lparr>board_game_id := gid, board_current_player := P1\<rparr>)"
| step: "reachable b \<Longrightarrow> isValidMove b from to p (Some d) = Some True \<Longrightarrow>
         makeMove b from to p d = Some b' \<Longrightarrow> reachable b'"


text \<open>
  Boards as the game produces them: 24 points and no negative count. The source keeps
  counts in unconstrained numbers; every reachable board is of this form
  (\<open>reachable_wellFormed\<close> below).
\<close>

definition nonNegative :: "int \<times> int \<Rightarrow> bool" where
  "nonNegative pr = (0 \<le> fst pr \<and> 0 \<le> snd pr)"

definition wellFormed :: "BackgammonBoard \<Rightarrow> bool" where
  "wellFormed b =
     (length (points b) = 24 \<and> list_all nonNegative (points b)
      \<and> nonNegative (bar b) \<and> nonNegative (borne_off b))"

section \<open>Any-legal-move test\<close>

text \<open>\<open>dice[k]\<close> for \<open>k\<close> = 0, 1 and the truth value of \<open>usedDice[k]\<close> (a slot past the end of
  the array reads \<open>undefined\<close>, which is falsy).\<close>

definition die :: "int \<times> int \<Rightarrow> nat \<Rightarrow> int" where
  "die dice k = (if k = 0 then fst dice else snd dice)"

definition dieUsedAt :: "bool list \<Rightarrow> nat \<Rightarrow> bool" where
  "dieUsedAt usedDice k = (k < length usedDice \<and> usedDice ! k)"

text \<open>\<open>!usedDice[k] && isValidMove(board, 'bar', i, player, dice[k])\<close>\<close>

definition tryBarEntry ::
  "BackgammonBoard \<Rightarrow> Player \<Rightarrow> int \<times> int \<Rightarrow> bool list \<Rightarrow> nat \<Rightarrow> int \<Rightarrow> bool option" where
  "tryBarEntry board player dice usedDice k i =
     (if dieUsedAt usedDice k then Some False
      else isValidMove board Bar (To i) player (Some (die dice k)))"

text \<open>The loop over the entry points; falling out of it is \<open>return false\<close>.\<close>

fun barEntryLoop ::
  "BackgammonBoard \<Rightarrow> Player \<Rightarrow> int \<times> int \<Rightarrow> bool list \<Rightarrow> int list \<Rightarrow> bool option" where
  "barEntryLoop board player dice usedDice [] = Some False"
| "barEntryLoop board player dice usedDice (i # rest) =
     do {
       r0 \<leftarrow> tryBarEntry board player dice usedDice 0 i;
       if r0 then Some True
       else do {
         r1 \<leftarrow> tryBarEntry board player dice usedDice 1 i;
         if r1 then Some True else barEntryLoop board player dice usedDice rest
       }
     }"

text \<open>
  The block \<open>if (!usedDice[k]) { ... }\<close> for one die at point \<open>i\<close>: \<open>Some True\<close> is its
  \<open>return true\<close>, \<open>Some False\<close> is leaving the block.
\<close>

definition tryPoint ::
  "BackgammonBoard \<Rightarrow> Player \<Rightarrow> int \<times> int \<Rightarrow> bool list \<Rightarrow> nat \<Rightarrow> int \<Rightarrow> bool option" where
  "tryPoint board player dice usedDice k i =
     (if dieUsedAt usedDice k then Some False
      else do {
        m \<leftarrow> (if i - die dice k \<ge> 0 \<and> i - die dice k < 24
              then isValidMove board (From i) (To (i - die dice k)) player (Some (die dice k))
              else Some False);
        if m then Some True
        else if isInHomeBoard i player
        then do {
          home \<leftarrow> allInHomeBoard board player;
          if home then isValidMove board (From i) Off player (Some (die dice k)) else Some False
        }
        else Some False
      })"

fun pointLoop ::
  "BackgammonBoard \<Rightarrow> Player \<Rightarrow> int \<times> int \<Rightarrow> bool list \<Rightarrow> int list \<Rightarrow> bool option" where
  "pointLoop board player dice usedDice [] = Some False"
| "pointLoop board player dice usedDice (i # rest) =
     do {
       c \<leftarrow> pointAt board i player;
       if c > 0
       then do {
         r0 \<leftarrow> tryPoint board player dice usedDice 0 i;
         if r0 then Some True
         else do {
           r1 \<leftarrow> tryPoint board player dice usedDice 1 i;
           if r1 then Some True else pointLoop board player dice usedDice rest
         }
       }
       else pointLoop board player dice usedDice rest
     }"

text \<open>\<open>canPlayerMove(board, player, dice, usedDice)\<close>\<close>

definition canPlayerMove ::
  "BackgammonBoard \<Rightarrow> Player \<Rightarrow> int \<times> int \<Rightarrow> bool list \<Rightarrow> bool option" where
  "canPlayerMove board player dice usedDice =
     (if sel player (bar board) > 0
      then barEntryLoop board player dice usedDice [18..23]
      else pointLoop board player dice usedDice [0..23])"

section \<open>Dice duel (services/diceGameService.ts)\<close>

text \<open>\<open>round_winner: 0 | 1 | 2 | null\<close>: a tie or a player, \<open>None\<close> for \<open>null\<close>.\<close>

datatype RoundResult = Tie | Won Player

record DiceGameState =
  game_id :: string
  player1_score :: int
  player2_score :: int
  current_round :: int
  player1_roll :: "int option"
  player2_roll :: "int option"
  current_player :: Player
  round_winner :: "RoundResult option"
  game_winner :: "Player option"

definition initializeDiceGame :: "string \<Rightarrow> DiceGameState" where
  "initializeDiceGame gameId =
     \<lparr> game_id = gameId,
       player1_score = 0,
       player2_score = 0,
       current_round = 1,
       player1_roll = None,
       player2_roll = None,
       current_player = P1,
       round_winner = None,
       game_winner = None \<rparr>"

text \<open>
  \<open>processDiceRoll\<close> as a function from the state value to the new state value. The test
  \<open>current_round % 2 === 0\<close> has the same truth value as \<open>mod 2 = 0\<close> on every integer.
\<close>

definition recordRoll :: "DiceGameState \<Rightarrow> Player \<Rightarrow> int \<Rightarrow> DiceGameState" where
  "recordRoll newState player roll =
     (case player of
        P1 \<Rightarrow> newState\<lparr>player1_roll := Some roll\<rparr>
      | P2 \<Rightarrow> newState\<lparr>player2_roll := Some roll\<rparr>)"

definition decideRound :: "DiceGameState \<Rightarrow> int \<Rightarrow> int \<Rightarrow> DiceGameState" where
  "decideRound newState r1 r2 =
     (if r1 > r2
      then newState\<lparr>round_winner := Some (Won P1), player1_score := player1_score newState + 1\<rparr>
      else if r2 > r1
      then newState\<lparr>round_winner := Some (Won P2), player2_score := player2_score newState + 1\<rparr>
      else newState\<lparr>round_winner := Some Tie\<rparr>)"

definition nextRound :: "DiceGameState \<Rightarrow> DiceGameState" where
  "nextRound newState =
     (let advanced = newState\<lparr>current_round := current_round newState + 1,
                               player1_roll := None,
                               player2_roll := None,
                               round_winner := None\<rparr>
      in advanced\<lparr>current_player := (if current_round advanced mod 2 = 0 then P2 else P1)\<rparr>)"

definition afterRoll :: "DiceGameState \<Rightarrow> Player \<Rightarrow> DiceGameState" where
  "afterRoll newState player =
     (case (player1_roll newState, player2_roll newState) of
        (Some r1, Some r2) \<Rightarrow>
          (let decided = decideRound newState r1 r2
           in if player1_score decided \<ge> 3 then decided\<lparr>game_winner := Some P1\<rparr>
              else if player2_score decided \<ge> 3 then decided\<lparr>game_winner := Some P2\<rparr>
              else nextRound decided)
      | _ \<Rightarrow> newState\<lparr>current_player := opponent player\<rparr>)"

definition processDiceRoll :: "DiceGameState \<Rightarrow> Player \<Rightarrow> int \<Rightarrow> DiceGameState" where
  "processDiceRoll gameState player roll = afterRoll (recordRoll gameState player roll) player"

text \<open>
  The same function on a store of objects, to speak about what it writes. A reference is an
  index into the store. \<open>const newState = { ...gameState }\<close> allocates a copy at the end of
  the store; every assignment of the body goes to \<open>newState\<close>, which is returned.
\<close>

definition processDiceRoll_store ::
  "DiceGameState list \<Rightarrow> nat \<Rightarrow> Player \<Rightarrow> int \<Rightarrow> DiceGameState list \<times> nat" where
  "processDiceRoll_store store gameState player roll =
     (let newState = length store;
          store1 = store @ [store ! gameState];
          store2 = store1[newState := recordRoll (store1 ! newState) player roll];
          store3 = store2[newState := afterRoll (store2 ! newState) player]
      in (store3, newState))"

section \<open>Room and socket handlers (socket/gameHandler.ts)\<close>

text \<open>
  One room of \<open>backgammonRooms\<close> and the two handlers that change it. A handler is modelled
  as a function of the room it found: it returns the room as it leaves it and the
  messages it sends. The lookups of the game row and of the room, the database writes and
  the per-socket fan-out are outside the model; the pair returned by \<open>rollDice()\<close> is a
  parameter. In \<open>rollDiceHandler\<close> and \<open>makeMoveHandler\<close> a handler runs from its first to
  its last statement with no other handler of the room in between; the section on the
  awaited insert further down takes the make-move handler apart where it suspends.
\<close>

record BackgammonGameRoom =
  gameId :: string
  board :: BackgammonBoard
  player1Id :: string
  player2Id :: string
  currentPlayer :: Player
  dice :: "(int \<times> int) option"
  diceUsed :: "bool list"

text \<open>
  Messages: \<open>socket.emit('error', ...)\<close> to the sender, and \<open>dice-rolled\<close> and \<open>game-state\<close>
  (board, current player, dice, used flags) to the sockets of the room. The two handlers
  modelled here never get as far as their \<open>game-over\<close> message (see \<open>settleTurn\<close>).
\<close>

datatype Event =
    ErrorToSender string
  | DiceRolledToRoom "int \<times> int" Player
  | GameStateToRoom BackgammonBoard Player "(int \<times> int) option" "bool list"

text \<open>The room the join handler creates for a game that has none.\<close>

definition newRoom :: "string \<Rightarrow> string \<Rightarrow> string \<Rightarrow> BackgammonGameRoom" where
  "newRoom gid p1 p2 =
     \<lparr> gameId = gid,
       board = initializeBoard\<lparr>board_game_id := gid, board_current_player := P1\<rparr>,
       player1Id = p1,
       player2Id = p2,
       currentPlayer = P1,
       dice = None,
       diceUsed = [] \<rparr>"

text \<open>\<open>room.player1Id === userId ? 1 : 2\<close>\<close>

definition playerNumberOf :: "BackgammonGameRoom \<Rightarrow> string \<Rightarrow> Player" where
  "playerNumberOf room userId = (if player1Id room = userId then P1 else P2)"

definition stateMessage :: "BackgammonGameRoom \<Rightarrow> Event" where
  "stateMessage room = GameStateToRoom (board room) (currentPlayer room) (dice room) (diceUsed room)"

text \<open>The backgammon branch of the \<open>roll-dice\<close> handler.\<close>

definition rollDiceHandler ::
  "BackgammonGameRoom \<Rightarrow> string \<Rightarrow> int \<times> int \<Rightarrow> BackgammonGameRoom \<times> Event list" where
  "rollDiceHandler room userId rolled =
     (let playerNumber = playerNumberOf room userId
      in if currentPlayer room \<noteq> playerNumber then (room, [ErrorToSender ''Not your turn''])
         else if dice room \<noteq> None then (room, [ErrorToSender ''Dice already rolled''])
         else (let room1 = room\<lparr>dice := Some rolled, diceUsed := [False, False]\<rparr>
               in (room1, [DiceRolledToRoom rolled playerNumber, stateMessage room1])))"

text \<open>
  \<open>dieUsed\<close> and \<open>diceValue\<close> as the \<open>make-move\<close> handler determines them: \<open>NoDie\<close> is
  \<open>dieUsed === -1\<close>. The loop of the overshoot case is the loop of \<open>isValidMove\<close> on the
  room's board (\<open>break\<close> with \<open>canBearOff = false\<close> for its \<open>return false\<close>).
\<close>

datatype DieChoice = NoDie | Die nat int

definition chooseDie ::
  "BackgammonGameRoom \<Rightarrow> Player \<Rightarrow> int \<times> int \<Rightarrow> Origin \<Rightarrow> Dest \<Rightarrow> DieChoice option" where
  "chooseDie room playerNumber d src dst =
     (case (src, dst) of
        (Bar, To t) \<Rightarrow>
          if t = (24 - fst d) - 1 \<and> \<not> dieUsedAt (diceUsed room) 0 then Some (Die 0 (fst d))
          else if t = (24 - snd d) - 1 \<and> \<not> dieUsedAt (diceUsed room) 1 then Some (Die 1 (snd d))
          else Some NoDie
      | (From f, Off) \<Rightarrow>
          if f + 1 = fst d \<and> \<not> dieUsedAt (diceUsed room) 0 then Some (Die 0 (fst d))
          else if f + 1 = snd d \<and> \<not> dieUsedAt (diceUsed room) 1 then Some (Die 1 (snd d))
          else (let higherDie = (if fst d > snd d then 0 else 1)
                in if \<not> dieUsedAt (diceUsed room) higherDie \<and> f + 1 < die d higherDie
                   then do {
                     canBearOff \<leftarrow> higherPointsClear (board room) playerNumber [f + 1..5];
                     if canBearOff then Some (Die higherDie (die d higherDie)) else Some NoDie
                   }
                   else Some NoDie)
      | (From f, To t) \<Rightarrow>
          if f - t = fst d \<and> \<not> dieUsedAt (diceUsed room) 0 then Some (Die 0 (fst d))
          else if f - t = snd d \<and> \<not> dieUsedAt (diceUsed room) 1 then Some (Die 1 (snd d))
          else Some NoDie
      | (Bar, Off) \<Rightarrow> Some NoDie)"

text \<open>
  \<open>room.diceUsed[dieUsed] = true\<close>. An assignment past the end would extend the array;
  the handlers only assign while dice are set, when the array has two elements.
\<close>

definition markUsed :: "bool list \<Rightarrow> nat \<Rightarrow> bool list" where
  "markUsed usedDice k =
     (if k < length usedDice then usedDice[k := True]
      else usedDice @ replicate (k - length usedDice) False @ [True])"

text \<open>
  The \<open>make-move\<close> handler. An exception inside the \<open>try\<close> block is caught and reported
  to the sender as \<open>Failed to make move\<close>; the room keeps what had been assigned before.

  \<open>settleTurn\<close> is the part of the handler after the move has been applied and the die
  marked: the turn decision and the win check. Its argument \<open>d\<close> is \<open>room.dice\<close>, which the
  handler has found set and has not assigned since. On a win the block
  \<open>if (winner) { const winnerId = winner === 1 ? ... }\<close> reads \<open>winner\<close> before the
  \<open>const [winner]\<close> that the same block declares further down: the read raises a
  ReferenceError, which is caught like every exception, after the turn has been decided.
\<close>

definition settleTurn ::
  "BackgammonGameRoom \<Rightarrow> Player \<Rightarrow> int \<times> int \<Rightarrow> BackgammonGameRoom \<times> Event list" where
  "settleTurn room1 playerNumber d =
     (let allDiceUsed = list_all (\<lambda>used. used) (diceUsed room1)
      in case canPlayerMove (board room1) playerNumber d (diceUsed room1) of
           None \<Rightarrow> (room1, [ErrorToSender ''Failed to make move''])
         | Some canMoveMore \<Rightarrow>
             (let room2 = (if allDiceUsed \<or> \<not> canMoveMore
                           then room1\<lparr>currentPlayer := opponent (currentPlayer room1),
                                      dice := None,
                                      diceUsed := []\<rparr>
                           else room1)
              in case checkWinCondition (board room2) of
                   Some winner \<Rightarrow> (room2, [ErrorToSender ''Failed to make move''])
                 | None \<Rightarrow> (room2, [stateMessage room2])))"

definition makeMoveHandler ::
  "BackgammonGameRoom \<Rightarrow> string \<Rightarrow> Origin \<Rightarrow> Dest \<Rightarrow> BackgammonGameRoom \<times> Event list" where
  "makeMoveHandler room userId src dst =
     (let playerNumber = playerNumberOf room userId
      in if currentPlayer room \<noteq> playerNumber then (room, [ErrorToSender ''Not your turn''])
         else case dice room of
           None \<Rightarrow> (room, [ErrorToSender ''Must roll dice first''])
         | Some d \<Rightarrow>
             (case chooseDie room playerNumber d src dst of
                None \<Rightarrow> (room, [ErrorToSender ''Failed to make move''])
              | Some NoDie \<Rightarrow>
                  (room, [ErrorToSender ''Invalid move - dice value does not match''])
              | Some (Die dieUsed diceValue) \<Rightarrow>
                  (case isValidMove (board room) src dst playerNumber (Some diceValue) of
                     None \<Rightarrow> (room, [ErrorToSender ''Failed to make move''])
                   | Some False \<Rightarrow> (room, [ErrorToSender ''Invalid move''])
                   | Some True \<Rightarrow>
                       (case makeMove (board room) src dst playerNumber diceValue of
                          None \<Rightarrow> (room, [ErrorToSender ''Failed to make move''])
                        | Some newBoard \<Rightarrow>
                            settleTurn
                              (room\<lparr>board := newBoard,
                                    diceUsed := markUsed (diceUsed room) dieUsed\<rparr>)
                              playerNumber d))))"

text \<open>A sequence of actions on one room, each handled to its end before the next.\<close>

datatype Action = Roll string "int \<times> int" | Move string Origin Dest

fun handle :: "BackgammonGameRoom \<Rightarrow> Action \<Rightarrow> BackgammonGameRoom" where
  "handle room (Roll userId rolled) = fst (rollDiceHandler room userId rolled)"
| "handle room (Move userId src dst) = fst (makeMoveHandler room userId src dst)"

definition play :: "BackgammonGameRoom \<Rightarrow> Action list \<Rightarrow> BackgammonGameRoom" where
  "play room actions = foldl handle room actions"

text \<open>The used flags go with the dice: none while no dice are set, two while they are.\<close>

definition flagsMatchDice :: "BackgammonGameRoom \<Rightarrow> bool" where
  "flagsMatchDice room =
     (case dice room of None \<Rightarrow> diceUsed room = [] | Some d \<Rightarrow> length (diceUsed room) = 2)"


section \<open>The make-move handler around its awaited insert\<close>

text \<open>
  The make-move handler suspends at \<open>await db.insert(game_moves)\<close>, after it has assigned
  \<open>room.board\<close> and marked the die and before it decides the turn; another handler of the
  room can run in between. \<open>moveUntilInsert\<close> is the handler up to that point: \<open>Inl\<close> is a
  rejection with its error message, the room untouched; \<open>Inr\<close> is the room as assigned so
  far, with \<open>playerNumber\<close>, the local that the rest of the handler reads.
\<close>

definition moveUntilInsert ::
  "BackgammonGameRoom \<Rightarrow> string \<Rightarrow> Origin \<Rightarrow> Dest \<Rightarrow> string + (BackgammonGameRoom \<times> Player)" where
  "moveUntilInsert room userId src dst =
     (let playerNumber = playerNumberOf room userId
      in if currentPlayer room \<noteq> playerNumber then Inl ''Not your turn''
         else case dice room of
           None \<Rightarrow> Inl ''Must roll dice first''
         | Some d \<Rightarrow>
             (case chooseDie room playerNumber d src dst of
                None \<Rightarrow> Inl ''Failed to make move''
              | Some NoDie \<Rightarrow> Inl ''Invalid move - dice value does not match''
              | Some (Die dieUsed diceValue) \<Rightarrow>
                  (case isValidMove (board room) src dst playerNumber (Some diceValue) of
                     None \<Rightarrow> Inl ''Failed to make move''
                   | Some False \<Rightarrow> Inl ''Invalid move''
                   | Some True \<Rightarrow>
                       (case makeMove (board room) src dst playerNumber diceValue of
                          None \<Rightarrow> Inl ''Failed to make move''
                        | Some newBoard \<Rightarrow>
                            Inr (room\<lparr>board := newBoard,
                                      diceUsed := markUsed (diceUsed room) dieUsed\<rparr>,
                                 playerNumber)))))"

text \<open>
  The rest of the handler reads \<open>room.dice\<close> again, and it is \<open>null\<close> if a handler that ran
  in between has passed the turn. \<open>canPlayerMove(board, player, null, usedDice)\<close> follows
  the same path as with dice, and raises a TypeError where it first evaluates \<open>dice[0]\<close>
  or \<open>dice[1]\<close>: in the bar loop inside \<open>!usedDice[k] && isValidMove(..., dice[k])\<close>, in the
  point loop at \<open>const to = i - dice[k]\<close> inside \<open>if (!usedDice[k])\<close>.
\<close>

fun barEntryLoopNoDice :: "bool list \<Rightarrow> int list \<Rightarrow> bool option" where
  "barEntryLoopNoDice usedDice [] = Some False"
| "barEntryLoopNoDice usedDice (i # rest) =
     (if \<not> dieUsedAt usedDice 0 then None
      else if \<not> dieUsedAt usedDice 1 then None
      else barEntryLoopNoDice usedDice rest)"

fun pointLoopNoDice :: "BackgammonBoard \<Rightarrow> Player \<Rightarrow> bool list \<Rightarrow> int list \<Rightarrow> bool option" where
  "pointLoopNoDice brd player usedDice [] = Some False"
| "pointLoopNoDice brd player usedDice (i # rest) =
     do {
       c \<leftarrow> pointAt brd i player;
       if c > 0
       then (if \<not> dieUsedAt usedDice 0 then None
             else if \<not> dieUsedAt usedDice 1 then None
             else pointLoopNoDice brd player usedDice rest)
       else pointLoopNoDice brd player usedDice rest
     }"

fun canPlayerMoveAt ::
  "BackgammonBoard \<Rightarrow> Player \<Rightarrow> (int \<times> int) option \<Rightarrow> bool list \<Rightarrow> bool option" where
  "canPlayerMoveAt brd player (Some d) usedDice = canPlayerMove brd player d usedDice"
| "canPlayerMoveAt brd player None usedDice =
     (if sel player (bar brd) > 0
      then barEntryLoopNoDice usedDice [18..23]
      else pointLoopNoDice brd player usedDice [0..23])"

text \<open>The handler from the awaited insert on: \<open>settleTurn\<close> with \<open>room.dice\<close> as it is then.\<close>

definition moveAfterInsert ::
  "BackgammonGameRoom \<Rightarrow> Player \<Rightarrow> BackgammonGameRoom \<times> Event list" where
  "moveAfterInsert room1 playerNumber =
     (let allDiceUsed = list_all (\<lambda>used. used) (diceUsed room1)
      in case canPlayerMoveAt (board room1) playerNumber (dice room1) (diceUsed room1) of
           None \<Rightarrow> (room1, [ErrorToSender ''Failed to make move''])
         | Some canMoveMore \<Rightarrow>
             (let room2 = (if allDiceUsed \<or> \<not> canMoveMore
                           then room1\<lparr>currentPlayer := opponent (currentPlayer room1),
                                      dice := None,
                                      diceUsed := []\<rparr>
                           else room1)
              in case checkWinCondition (board room2) of
                   Some winner \<Rightarrow> (room2, [ErrorToSender ''Failed to make move''])
                 | None \<Rightarrow> (room2, [stateMessage room2])))"

text \<open>
  Two handlers of one room, interleaved. A handler is \<open>Ready\<close> before its first statement,
  \<open>Suspended\<close> at the awaited insert of an applied move, and \<open>Finished\<close> when nothing it has
  left can assign to the room. \<open>segment\<close> runs a handler from where it is to its next
  suspension. The roll handler makes both of its assignments, to \<open>room.dice\<close> and to
  \<open>room.diceUsed\<close>, before it awaits its insert, and only sends messages afterwards: as
  far as the room goes it is finished after one segment.
\<close>

datatype Progress = Ready | Suspended Player | Finished

fun segment :: "BackgammonGameRoom \<Rightarrow> Action \<Rightarrow> Progress \<Rightarrow> BackgammonGameRoom \<times> Progress" where
  "segment room (Roll userId rolled) Ready = (fst (rollDiceHandler room userId rolled), Finished)"
| "segment room (Move userId src dst) Ready =
     (case moveUntilInsert room userId src dst of
        Inl msg \<Rightarrow> (room, Finished)
      | Inr (room1, playerNumber) \<Rightarrow> (room1, Suspended playerNumber))"
| "segment room (Move userId src dst) (Suspended playerNumber) =
     (fst (moveAfterInsert room playerNumber), Finished)"
| "segment room a progress = (room, Finished)"

text \<open>
  A schedule says, step by step, which of the two handlers runs its next segment (\<open>True\<close>
  for the first). Each handler has at most two segments, so the interleavings are the six
  orders of two steps of each.
\<close>

fun interleave ::
  "Action \<Rightarrow> Action \<Rightarrow> BackgammonGameRoom \<times> Progress \<times> Progress \<Rightarrow> bool list
     \<Rightarrow> BackgammonGameRoom \<times> Progress \<times> Progress" where
  "interleave a b st [] = st"
| "interleave a b (room, pa, pb) (True # rest) =
     (case segment room a pa of (room', pa') \<Rightarrow> interleave a b (room', pa', pb) rest)"
| "interleave a b (room, pa, pb) (False # rest) =
     (case segment room b pb of (room', pb') \<Rightarrow> interleave a b (room', pa, pb') rest)"

definition schedules :: "bool list list" where
  "schedules =
     [[True, True, False, False], [True, False, True, False], [True, False, False, True],
      [False, True, True, False], [False, True, False, True], [False, False, True, True]]"

definition isRoll :: "Action \<Rightarrow> bool" where
  "isRoll a = (case a of Roll u rolled \<Rightarrow> True | Move u src dst \<Rightarrow> False)"

section \<open>Concrete boards and rooms used below\<close>

text \<open>The board after player 1 plays a 1 from index 12 on the initial board.\<close>

definition afterFirstMove :: BackgammonBoard where
  "afterFirstMove = initializeBoard\<lparr>points := (points initializeBoard)[12 := (4, 0), 11 := (1, 0)]\<rparr>"

text \<open>
  A game in which player 1 opens with 1 and 2 from index 12, player 2 rolls two sixes and
  hits the blot on index 11 from index 17 twice over, and player 1 then rolls two fives:
  player 1 has a checker on the bar, and index 18, the entry point of a five, holds five
  checkers of player 2.
\<close>

definition barredRoom :: BackgammonGameRoom where
  "barredRoom = play (newRoom ''g'' ''u1'' ''u2'')
     [Roll ''u1'' (1, 2), Move ''u1'' (From 12) (To 11), Move ''u1'' (From 12) (To 10),
      Roll ''u2'' (6, 6), Move ''u2'' (From 17) (To 11), Move ''u2'' (From 17) (To 11),
      Roll ''u1'' (5, 5)]"

definition barredBoard :: BackgammonBoard where
  "barredBoard =
     \<lparr> points =
         [(0, 0), (0, 0), (0, 0), (0, 3), (0, 0), (5, 0), (0, 5), (0, 0),
          (3, 0), (0, 0), (1, 0), (0, 2), (3, 0), (0, 0), (0, 0), (0, 0),
          (0, 0), (0, 0), (0, 5), (0, 0), (0, 0), (0, 0), (0, 0), (2, 0)],
       bar = (1, 0), borne_off = (0, 0), board_dice = None,
       board_current_player = P1, board_game_id = ''g'' \<rparr>"

text \<open>
  A game in which player 1 opens with 3 and 4 (index 8 to 5, index 12 to 8), player 2
  rolls two ones and moves two checkers from index 3 to index 2, and player 1 then rolls
  two sixes: six pips from each of player 1's points lead to a point that player 2 holds
  with two or more checkers, or off the board.
\<close>

definition stuckRoom :: BackgammonGameRoom where
  "stuckRoom = play (newRoom ''g'' ''u1'' ''u2'')
     [Roll ''u1'' (3, 4), Move ''u1'' (From 8) (To 5), Move ''u1'' (From 12) (To 8),
      Roll ''u2'' (1, 1), Move ''u2'' (From 3) (To 2), Move ''u2'' (From 3) (To 2),
      Roll ''u1'' (6, 6)]"

definition blockedBoard :: BackgammonBoard where
  "blockedBoard =
     \<lparr> points =
         [(0, 0), (0, 0), (0, 2), (0, 1), (0, 0), (6, 0), (0, 5), (0, 0),
          (3, 0), (0, 0), (0, 0), (0, 0), (4, 0), (0, 0), (0, 0), (0, 0),
          (0, 0), (0, 2), (0, 5), (0, 0), (0, 0), (0, 0), (0, 0), (2, 0)],
       bar = (0, 0), borne_off = (0, 0), board_dice = None,
       board_current_player = P1, board_game_id = ''g'' \<rparr>"

text \<open>
  A board on which player 1 has all fifteen checkers on indices 0..3, the highest two on
  index 3.
\<close>

definition bearOffBoard :: BackgammonBoard where
  "bearOffBoard =
     \<lparr> points =
         [(5, 0), (5, 0), (3, 0), (2, 0), (0, 0), (0, 0), (0, 5), (0, 0),
          (0, 0), (0, 0), (0, 0), (0, 0), (0, 3), (0, 0), (0, 0), (0, 0),
          (0, 0), (0, 2), (0, 5), (0, 0), (0, 0), (0, 0), (0, 0), (0, 0)],
       bar = (0, 0), borne_off = (0, 0), board_dice = None,
       board_current_player = P1, board_game_id = ''g'' \<rparr>"

text \<open>A fresh room after player 1 has rolled 6 and 5.\<close>

definition openingRoom :: BackgammonGameRoom where
  "openingRoom = play (newRoom ''g'' ''u1'' ''u2'') [Roll ''u1'' (6, 5)]"

text \<open>
  Two make-move messages of player 1 that reach the server together while the room is
  \<open>barredRoom\<close>, and the room after the second handler has run its first part between the
  two parts of the first.
\<close>

definition moveFrom12 :: Action where
  "moveFrom12 = Move ''u1'' (From 12) (To 7)"

definition moveFrom10 :: Action where
  "moveFrom10 = Move ''u1'' (From 10) (To 5)"

definition racedTwice :: BackgammonGameRoom where
  "racedTwice
     = fst (interleave moveFrom12 moveFrom12 (barredRoom, Ready, Ready) [True, False, True, False])"

definition racedBoth :: BackgammonGameRoom where
  "racedBoth
     = fst (interleave moveFrom12 moveFrom10 (barredRoom, Ready, Ready) [True, False, True, False])"

section \<open>Properties of the checker count\<close>

lemma sum_list_map_update:
  fixes f :: "'a \<Rightarrow> int"
  shows "i < length xs \<Longrightarrow> sum_list (map f (xs[i := y])) = sum_list (map f xs) - f (xs ! i) + f y"
proof (induction xs arbitrary: i)
  case Nil
  then show ?case by simp
next
  case (Cons x xs)
  then show ?case by (cases i) auto
qed

lemma sel_upd_same: "sel p (upd p v pr) = v"
  by (cases p; cases pr) simp_all

lemma sel_upd_other: "sel (opponent p) (upd p v pr) = sel (opponent p) pr"
  by (cases p; cases pr) simp_all

lemma sel_upd_other': "sel p (upd (opponent p) v pr) = sel p pr"
  by (cases p; cases pr) simp_all

lemma setPoint_facts:
  assumes "setPoint b i p v = Some b'"
  shows "length (points b') = length (points b)"
    and "bar b' = bar b" and "borne_off b' = borne_off b"
    and "onPoints b' p = onPoints b p - sel p (points b ! nat i) + v"
    and "onPoints b' (opponent p) = onPoints b (opponent p)"
  using assms
  by (auto simp: setPoint_def onPoints_def sum_list_map_update sel_upd_same sel_upd_other
           split: if_splits)

lemma onPoints_bar_update [simp]: "onPoints (b\<lparr>bar := x\<rparr>) p = onPoints b p"
  by (simp add: onPoints_def)

lemma onPoints_off_update [simp]: "onPoints (b\<lparr>borne_off := x\<rparr>) p = onPoints b p"
  by (simp add: onPoints_def)

lemma addPoint_facts:
  assumes "addPoint b i p k = Some b'"
  shows "length (points b') = length (points b)"
    and "checkers b' p = checkers b p + k"
    and "checkers b' (opponent p) = checkers b (opponent p)"
proof -
  from assms obtain c where c: "pointAt b i p = Some c" and s: "setPoint b i p (c + k) = Some b'"
    by (auto simp: addPoint_def split: bind_splits)
  from c have ci: "c = sel p (points b ! nat i)"
    by (auto simp: pointAt_def split: if_splits)
  show "length (points b') = length (points b)"
    using setPoint_facts(1)[OF s] .
  show "checkers b' p = checkers b p + k"
    using setPoint_facts(2,3,4)[OF s] ci by (simp add: checkers_def)
  show "checkers b' (opponent p) = checkers b (opponent p)"
    using setPoint_facts(2,3,5)[OF s] by (simp add: checkers_def)
qed

lemma opponent_opponent [simp]: "opponent (opponent p) = p"
  by (cases p) simp_all

lemma hitBlot_facts:
  assumes "hitBlot b t p = Some b'"
  shows "length (points b') = length (points b)"
    and "checkers b' p = checkers b p"
    and "checkers b' (opponent p) = checkers b (opponent p)"
proof -
  from assms obtain oc where oc: "pointAt b t (opponent p) = Some oc"
    by (auto simp: hitBlot_def split: bind_splits)
  have "length (points b') = length (points b) \<and> checkers b' p = checkers b p
        \<and> checkers b' (opponent p) = checkers b (opponent p)"
  proof (cases "oc = 1")
    case False
    with assms oc show ?thesis by (simp add: hitBlot_def)
  next
    case True
    with assms oc obtain nb1 where s: "setPoint b t (opponent p) 0 = Some nb1"
      and b': "b' = nb1\<lparr>bar := upd (opponent p) (sel (opponent p) (bar nb1) + 1) (bar nb1)\<rparr>"
      by (auto simp: hitBlot_def split: bind_splits)
    from oc True have one: "sel (opponent p) (points b ! nat t) = 1"
      by (auto simp: pointAt_def split: if_splits)
    have f: "length (points nb1) = length (points b)" "bar nb1 = bar b"
      "borne_off nb1 = borne_off b"
      "onPoints nb1 (opponent p) = onPoints b (opponent p) - 1"
      "onPoints nb1 p = onPoints b p"
      using setPoint_facts[OF s] one by simp_all
    show ?thesis
      using f by (simp add: b' checkers_def sel_upd_same sel_upd_other')
  qed
  then show "length (points b') = length (points b)"
    and "checkers b' p = checkers b p"
    and "checkers b' (opponent p) = checkers b (opponent p)" by simp_all
qed

lemma makeMove_checkers:
  assumes "makeMove b src dst p d = Some b'"
  shows "length (points b') = length (points b) \<and> checkers b' p = checkers b p
         \<and> checkers b' (opponent p) = checkers b (opponent p)"
proof (cases src)
  case Bar
  show ?thesis
  proof (cases dst)
    case Off
    with Bar assms show ?thesis by (simp add: makeMove_def)
  next
    case (To t)
    define nb0 where "nb0 = b\<lparr>bar := upd p (sel p (bar b) - 1) (bar b)\<rparr>"
    from assms Bar To obtain nb1 where h: "hitBlot nb0 t p = Some nb1"
      and a: "addPoint nb1 t p 1 = Some b'"
      by (auto simp: makeMove_def nb0_def split: bind_splits)
    have "checkers nb0 p = checkers b p - 1" "checkers nb0 (opponent p) = checkers b (opponent p)"
      "length (points nb0) = length (points b)"
      by (simp_all add: nb0_def checkers_def sel_upd_same sel_upd_other)
    with hitBlot_facts[OF h] addPoint_facts[OF a] show ?thesis by simp
  qed
next
  case (From f)
  show ?thesis
  proof (cases dst)
    case Off
    from assms From Off obtain nb where a: "addPoint b f p (- 1) = Some nb"
      and b': "b' = nb\<lparr>borne_off := upd p (sel p (borne_off nb) + 1) (borne_off nb)\<rparr>"
      by (auto simp: makeMove_def split: bind_splits)
    from addPoint_facts[OF a] show ?thesis
      by (simp add: b' checkers_def sel_upd_same sel_upd_other)
  next
    case (To t)
    from assms From To obtain nb nb1 where a: "addPoint b f p (- 1) = Some nb"
      and h: "hitBlot nb t p = Some nb1" and a2: "addPoint nb1 t p 1 = Some b'"
      by (auto simp: makeMove_def split: bind_splits)
    from addPoint_facts[OF a] hitBlot_facts[OF h] addPoint_facts[OF a2] show ?thesis by simp
  qed
qed


lemma pointAt_Some_iff: "(\<exists>c. pointAt b i p = Some c) \<longleftrightarrow> (0 \<le> i \<and> i < int (length (points b)))"
  by (simp add: pointAt_def)

lemma addPoint_defined:
  "0 \<le> i \<Longrightarrow> i < int (length (points b)) \<Longrightarrow> \<exists>b'. addPoint b i p k = Some b'"
  by (simp add: addPoint_def pointAt_def setPoint_def)

lemma hitBlot_defined:
  "0 \<le> i \<Longrightarrow> i < int (length (points b)) \<Longrightarrow> \<exists>b'. hitBlot b i p = Some b'"
  by (simp add: hitBlot_def pointAt_def setPoint_def)

lemma pointAt_range: "pointAt b i p = Some c \<Longrightarrow> 0 \<le> i \<and> i < int (length (points b))"
  by (simp add: pointAt_def split: if_splits)

lemma isValidMove_range:
  assumes "isValidMove b src dst p dv = Some True"
  shows "(\<forall>f. src = From f \<longrightarrow> 0 \<le> f \<and> f < int (length (points b)))
       \<and> (\<forall>t. dst = To t \<longrightarrow> 0 \<le> t \<and> t < int (length (points b)))"
  using assms
  by (cases src; cases dst)
     (auto simp: isValidMove_def split: if_splits bind_splits dest: pointAt_range)

lemma makeMove_defined:
  assumes "isValidMove b src dst p dv = Some True"
  shows "\<exists>b'. makeMove b src dst p d = Some b'"
proof (cases src)
  case Bar
  show ?thesis
  proof (cases dst)
    case Off
    with Bar show ?thesis by (simp add: makeMove_def)
  next
    case (To t)
    with isValidMove_range[OF assms] have r: "0 \<le> t" "t < int (length (points b))" by simp_all
    define nb0 where "nb0 = b\<lparr>bar := upd p (sel p (bar b) - 1) (bar b)\<rparr>"
    have "length (points nb0) = length (points b)" by (simp add: nb0_def)
    with r obtain nb1 where h: "hitBlot nb0 t p = Some nb1"
      using hitBlot_defined[of t nb0 p] by auto
    with r hitBlot_facts(1)[OF h] \<open>length (points nb0) = length (points b)\<close>
    obtain b' where "addPoint nb1 t p 1 = Some b'"
      using addPoint_defined[of t nb1 p 1] by auto
    with h Bar To show ?thesis by (simp add: makeMove_def nb0_def)
  qed
next
  case (From f)
  with isValidMove_range[OF assms] have rf: "0 \<le> f" "f < int (length (points b))" by simp_all
  then obtain nb where a: "addPoint b f p (- 1) = Some nb"
    using addPoint_defined[of f b p "- 1"] by auto
  show ?thesis
  proof (cases dst)
    case Off
    with From a show ?thesis by (simp add: makeMove_def)
  next
    case (To t)
    with isValidMove_range[OF assms] have r: "0 \<le> t" "t < int (length (points b))" by simp_all
    with addPoint_facts(1)[OF a] obtain nb1 where h: "hitBlot nb t p = Some nb1"
      using hitBlot_defined[of t nb p] by auto
    with r hitBlot_facts(1)[OF h] addPoint_facts(1)[OF a]
    obtain b' where "addPoint nb1 t p 1 = Some b'"
      using addPoint_defined[of t nb1 p 1] by auto
    with a h From To show ?thesis by (simp add: makeMove_def)
  qed
qed

lemma makeMove_fifteen:
  assumes "makeMove b src dst p d = Some b'" and "fifteen b"
  shows "fifteen b'"
  using makeMove_checkers[OF assms(1)] assms(2)
  by (cases p) (simp_all add: fifteen_def)

lemma fifteen_initializeBoard: "fifteen initializeBoard"
  by code_simp

lemma fifteen_bookkeeping [simp]:
  "fifteen (b\<lparr>board_game_id := g\<rparr>) = fifteen b"
  "fifteen (b\<lparr>board_current_player := c\<rparr>) = fifteen b"
  by (simp_all add: fifteen_def checkers_def onPoints_def)

lemma reachable_initializeBoard: "reachable initializeBoard"
proof -
  have "initializeBoard = initializeBoard\<lparr>board_game_id := [], board_current_player := P1\<rparr>"
    by (simp add: initializeBoard_def)
  then show ?thesis using reachable.init[of "[]"] by simp
qed

lemma reachable_fifteen: "reachable b \<Longrightarrow> fifteen b"
  by (induction rule: reachable.induct) (auto intro: fifteen_initializeBoard makeMove_fifteen)

lemma initializeBoard_points:
  "points initializeBoard =
    [(0, 0), (0, 0), (0, 0), (0, 3), (0, 0), (5, 0), (0, 5), (0, 0), (3, 0),
     (0, 0), (0, 0), (0, 0), (5, 0), (0, 0), (0, 0), (0, 0), (0, 0), (0, 2),
     (0, 5), (0, 0), (0, 0), (0, 0), (0, 0), (2, 0)]"
  by code_simp

section \<open>Well-formed boards and the branches of \<open>isValidMove\<close>\<close>

lemma nonNegative_sel: "nonNegative pr \<Longrightarrow> 0 \<le> sel p pr"
  by (cases p; cases pr) (simp_all add: nonNegative_def)

lemma wellFormed_point:
  "wellFormed b \<Longrightarrow> 0 \<le> i \<Longrightarrow> i \<le> 23 \<Longrightarrow> 0 \<le> sel p (points b ! nat i)"
  by (auto simp: wellFormed_def list_all_length intro!: nonNegative_sel)

lemma wellFormed_pointAt:
  "wellFormed b \<Longrightarrow> 0 \<le> i \<Longrightarrow> i \<le> 23 \<Longrightarrow> pointAt b i p = Some (sel p (points b ! nat i))"
  by (simp add: wellFormed_def pointAt_def)

lemma higherPointsClear_eq:
  assumes "\<forall>i \<in> set js. 0 \<le> i \<and> i < int (length (points b))"
  shows "higherPointsClear b p js = Some (\<forall>i \<in> set js. sel p (points b ! nat i) \<le> 0)"
  using assms by (induction js) (auto simp: pointAt_def)

lemma outsideHomeClear_eq:
  assumes "\<forall>i \<in> set js. 0 \<le> i \<and> i < int (length (points b))"
  shows "outsideHomeClear b p js
         = Some (\<forall>i \<in> set js. (i < 0 \<or> i > 5) \<longrightarrow> sel p (points b ! nat i) \<le> 0)"
  using assms by (induction js) (auto simp: pointAt_def)

lemma allInHomeBoard_eq:
  assumes "wellFormed b"
  shows "allInHomeBoard b p
         = Some ((\<forall>i. 6 \<le> i \<and> i \<le> 23 \<longrightarrow> sel p (points b ! nat i) = 0) \<and> sel p (bar b) = 0)"
proof -
  have len: "length (points b) = 24" using assms by (simp add: wellFormed_def)
  have "outsideHomeClear b p [0..23]
        = Some (\<forall>i \<in> set [0..23]. (i < 0 \<or> i > 5) \<longrightarrow> sel p (points b ! nat i) \<le> 0)"
    by (rule outsideHomeClear_eq) (simp add: len)
  moreover have "(\<forall>i \<in> set [0..23]. (i < 0 \<or> i > 5) \<longrightarrow> sel p (points b ! nat i) \<le> 0)
        \<longleftrightarrow> (\<forall>i. 6 \<le> i \<and> i \<le> 23 \<longrightarrow> sel p (points b ! nat i) = 0)"
    using wellFormed_point[OF assms, of _ p] by (auto simp: order.antisym) 
  ultimately show ?thesis
    by (simp add: allInHomeBoard_def split: bool.splits)
qed

lemma isValidMove_bar_eq:
  assumes "wellFormed b"
  shows "isValidMove b Bar (To t) p dv
           = Some (1 \<le> sel p (bar b) \<and> 18 \<le> t \<and> t \<le> 23
                   \<and> sel (opponent p) (points b ! nat t) \<le> 1
                   \<and> (\<forall>d. dv = Some d \<longrightarrow> t = (24 - d) - 1))"
proof -
  have bar: "0 \<le> sel p (bar b)"
    using assms by (simp add: wellFormed_def nonNegative_sel)
  have pt: "18 \<le> t \<Longrightarrow> t \<le> 23 \<Longrightarrow> pointAt b t (opponent p) = Some (sel (opponent p) (points b ! nat t))"
    using wellFormed_pointAt[OF assms, of t] by simp
  show ?thesis
    using bar pt by (cases dv) (auto simp: isValidMove_def)
qed

lemma isValidMove_off_eq:
  assumes "wellFormed b"
  shows "isValidMove b (From f) Off p (Some d)
           = Some (allInHomeBoard b p = Some True \<and> 0 \<le> f \<and> f \<le> 5
                   \<and> 1 \<le> sel p (points b ! nat f)
                   \<and> (f + 1 = d
                        \<or> (f + 1 < d \<and> (\<forall>i. f < i \<and> i \<le> 5 \<longrightarrow> sel p (points b ! nat i) = 0))))"
proof (cases "0 \<le> f \<and> f \<le> 5")
  case False
  obtain h where h: "allInHomeBoard b p = Some h" using allInHomeBoard_eq[OF assms] by blast
  with False show ?thesis by (auto simp: isValidMove_def isInHomeBoard_def)
next
  case True
  obtain h where h: "allInHomeBoard b p = Some h" using allInHomeBoard_eq[OF assms] by blast
  have len: "length (points b) = 24" using assms by (simp add: wellFormed_def)
  have pf: "pointAt b f p = Some (sel p (points b ! nat f))"
    using True wellFormed_pointAt[OF assms, of f p] by simp
  have ge: "0 \<le> sel p (points b ! nat f)"
    using True wellFormed_point[OF assms, of f p] by simp
  have "higherPointsClear b p [f + 1..5] = Some (\<forall>i \<in> set [f + 1..5]. sel p (points b ! nat i) \<le> 0)"
    using True by (intro higherPointsClear_eq) (simp add: len)
  moreover have "(\<forall>i \<in> set [f + 1..5]. sel p (points b ! nat i) \<le> 0)
       \<longleftrightarrow> (\<forall>i. f < i \<and> i \<le> 5 \<longrightarrow> sel p (points b ! nat i) = 0)"
    using True wellFormed_point[OF assms, of _ p] by (auto simp: order.antisym)
  ultimately show ?thesis
    using True pf h ge by (auto simp: isValidMove_def isInHomeBoard_def)
qed

lemma isValidMove_regular_eq:
  assumes "wellFormed b"
  shows "isValidMove b (From f) (To t) p (Some d)
           = Some (0 \<le> t \<and> t < f \<and> f \<le> 23 \<and> 1 \<le> sel p (points b ! nat f)
                   \<and> sel (opponent p) (points b ! nat t) \<le> 1 \<and> f - t = d)"
proof (cases "0 \<le> f \<and> f \<le> 23 \<and> 0 \<le> t \<and> t \<le> 23")
  case False
  then show ?thesis by (auto simp: isValidMove_def)
next
  case True
  have pf: "pointAt b f p = Some (sel p (points b ! nat f))"
    and pt: "pointAt b t (opponent p) = Some (sel (opponent p) (points b ! nat t))"
    using True wellFormed_pointAt[OF assms] by simp_all
  have ge: "0 \<le> sel p (points b ! nat f)"
    using True wellFormed_point[OF assms, of f p] by simp
  show ?thesis
    using True pf pt ge by (auto simp: isValidMove_def)
qed

lemma isValidMove_total:
  assumes "wellFormed b"
  shows "\<exists>r. isValidMove b src dst p (Some d) = Some r"
proof (cases src)
  case Bar
  then show ?thesis
    using isValidMove_bar_eq[OF assms, of _ p "Some d"] by (cases dst) (auto simp: isValidMove_def)
next
  case (From f)
  then show ?thesis
    using isValidMove_off_eq[OF assms] isValidMove_regular_eq[OF assms] by (cases dst) simp_all
qed

lemma nonNegative_upd: "nonNegative pr \<Longrightarrow> 0 \<le> v \<Longrightarrow> nonNegative (upd p v pr)"
  by (cases p; cases pr) (simp_all add: nonNegative_def)

lemma setPoint_wellFormed:
  "setPoint b i p v = Some b' \<Longrightarrow> 0 \<le> v \<Longrightarrow> wellFormed b \<Longrightarrow> wellFormed b'"
  by (auto simp: setPoint_def wellFormed_def list_all_length nth_list_update
           intro!: nonNegative_upd split: if_splits)

lemma addPoint_wellFormed:
  assumes "addPoint b i p k = Some b'" and "wellFormed b" and "0 \<le> sel p (points b ! nat i) + k"
  shows "wellFormed b'"
proof -
  from assms(1) obtain c where c: "pointAt b i p = Some c" and s: "setPoint b i p (c + k) = Some b'"
    by (auto simp: addPoint_def split: bind_splits)
  from c have "c = sel p (points b ! nat i)"
    by (auto simp: pointAt_def split: if_splits)
  with assms(3) have "0 \<le> c + k" by simp
  from setPoint_wellFormed[OF s this assms(2)] show ?thesis .
qed

lemma wellFormed_bar_update:
  "wellFormed b \<Longrightarrow> 0 \<le> v \<Longrightarrow> wellFormed (b\<lparr>bar := upd p v (bar b)\<rparr>)"
  by (simp add: wellFormed_def nonNegative_upd)

lemma wellFormed_off_update:
  "wellFormed b \<Longrightarrow> 0 \<le> v \<Longrightarrow> wellFormed (b\<lparr>borne_off := upd p v (borne_off b)\<rparr>)"
  by (simp add: wellFormed_def nonNegative_upd)

lemma wellFormed_sel_bar: "wellFormed b \<Longrightarrow> 0 \<le> sel p (bar b)"
  by (simp add: wellFormed_def nonNegative_sel)

lemma wellFormed_sel_off: "wellFormed b \<Longrightarrow> 0 \<le> sel p (borne_off b)"
  by (simp add: wellFormed_def nonNegative_sel)

lemma wellFormed_sel_point:
  "wellFormed b \<Longrightarrow> 0 \<le> i \<Longrightarrow> i < int (length (points b)) \<Longrightarrow> 0 \<le> sel p (points b ! nat i)"
  by (auto simp: wellFormed_def list_all_length intro!: nonNegative_sel)

lemma hitBlot_wellFormed:
  assumes "hitBlot b t p = Some b'" and "wellFormed b"
  shows "wellFormed b'"
proof -
  from assms(1) obtain oc where oc: "pointAt b t (opponent p) = Some oc"
    by (auto simp: hitBlot_def split: bind_splits)
  show ?thesis
  proof (cases "oc = 1")
    case False
    with assms oc show ?thesis by (simp add: hitBlot_def)
  next
    case True
    with assms(1) oc obtain nb1 where s: "setPoint b t (opponent p) 0 = Some nb1"
      and b': "b' = nb1\<lparr>bar := upd (opponent p) (sel (opponent p) (bar nb1) + 1) (bar nb1)\<rparr>"
      by (auto simp: hitBlot_def split: bind_splits)
    have w: "wellFormed nb1" using setPoint_wellFormed[OF s _ assms(2)] by simp
    show ?thesis unfolding b'
      using w wellFormed_sel_bar[OF w, of "opponent p"] by (intro wellFormed_bar_update) simp_all
  qed
qed

lemma makeMove_wellFormed:
  assumes w: "wellFormed b" and v: "isValidMove b src dst p dv = Some True"
    and m: "makeMove b src dst p d = Some b'"
  shows "wellFormed b'"
proof (cases src)
  case Bar
  show ?thesis
  proof (cases dst)
    case Off
    with Bar m w show ?thesis by (simp add: makeMove_def)
  next
    case (To t)
    define nb0 where "nb0 = b\<lparr>bar := upd p (sel p (bar b) - 1) (bar b)\<rparr>"
    from m Bar To obtain nb1 where h: "hitBlot nb0 t p = Some nb1"
      and a: "addPoint nb1 t p 1 = Some b'"
      by (auto simp: makeMove_def nb0_def split: bind_splits)
    from v Bar To have "sel p (bar b) \<noteq> 0"
      by (auto simp: isValidMove_def split: if_splits bind_splits)
    with wellFormed_sel_bar[OF w, of p] have "0 \<le> sel p (bar b) - 1" by simp
    then have w0: "wellFormed nb0" unfolding nb0_def by (rule wellFormed_bar_update[OF w])
    have w1: "wellFormed nb1" by (rule hitBlot_wellFormed[OF h w0])
    from a have "0 \<le> t \<and> t < int (length (points nb1))"
      by (auto simp: addPoint_def split: bind_splits dest: pointAt_range)
    with wellFormed_sel_point[OF w1, of t p] have "0 \<le> sel p (points nb1 ! nat t) + 1" by simp
    from addPoint_wellFormed[OF a w1 this] show ?thesis .
  qed
next
  case (From f)
  from v From have c: "pointAt b f p \<noteq> Some 0"
    by (cases dst) (auto simp: isValidMove_def split: if_splits bind_splits)
  from v From isValidMove_range[OF v] have rf: "0 \<le> f" "f < int (length (points b))" by simp_all
  with c have "sel p (points b ! nat f) \<noteq> 0" by (simp add: pointAt_def)
  with wellFormed_sel_point[OF w rf, of p] have ge: "0 \<le> sel p (points b ! nat f) + (- 1)" by simp
  show ?thesis
  proof (cases dst)
    case Off
    from m From Off obtain nb where a: "addPoint b f p (- 1) = Some nb"
      and b': "b' = nb\<lparr>borne_off := upd p (sel p (borne_off nb) + 1) (borne_off nb)\<rparr>"
      by (auto simp: makeMove_def split: bind_splits)
    have wn: "wellFormed nb" by (rule addPoint_wellFormed[OF a w ge])
    show ?thesis unfolding b'
      using wn wellFormed_sel_off[OF wn, of p] by (intro wellFormed_off_update) simp_all
  next
    case (To t)
    from m From To obtain nb nb1 where a: "addPoint b f p (- 1) = Some nb"
      and h: "hitBlot nb t p = Some nb1" and a2: "addPoint nb1 t p 1 = Some b'"
      by (auto simp: makeMove_def split: bind_splits)
    have wn: "wellFormed nb" by (rule addPoint_wellFormed[OF a w ge])
    have w1: "wellFormed nb1" by (rule hitBlot_wellFormed[OF h wn])
    from a2 have "0 \<le> t \<and> t < int (length (points nb1))"
      by (auto simp: addPoint_def split: bind_splits dest: pointAt_range)
    with wellFormed_sel_point[OF w1, of t p] have "0 \<le> sel p (points nb1 ! nat t) + 1" by simp
    from addPoint_wellFormed[OF a2 w1 this] show ?thesis .
  qed
qed

lemma wellFormed_initializeBoard: "wellFormed initializeBoard"
  by code_simp

lemma wellFormed_bookkeeping [simp]:
  "wellFormed (b\<lparr>board_game_id := g\<rparr>) = wellFormed b"
  "wellFormed (b\<lparr>board_current_player := c\<rparr>) = wellFormed b"
  by (simp_all add: wellFormed_def)

lemma reachable_wellFormed: "reachable b \<Longrightarrow> wellFormed b"
  by (induction rule: reachable.induct) (auto intro: wellFormed_initializeBoard makeMove_wellFormed)

section \<open>What \<open>canPlayerMove\<close> computes\<close>

lemma tryBarEntry_eq:
  assumes "wellFormed b"
  shows "tryBarEntry b p dc used k i
         = Some (\<not> dieUsedAt used k \<and> isValidMove b Bar (To i) p (Some (die dc k)) = Some True)"
  using isValidMove_total[OF assms, of Bar "To i" p "die dc k"]
  by (auto simp: tryBarEntry_def)

lemma barEntryLoop_eq:
  assumes "wellFormed b"
  shows "barEntryLoop b p dc used js
         = Some (\<exists>i \<in> set js.
              (\<not> dieUsedAt used 0 \<and> isValidMove b Bar (To i) p (Some (die dc 0)) = Some True)
            \<or> (\<not> dieUsedAt used 1 \<and> isValidMove b Bar (To i) p (Some (die dc 1)) = Some True))"
  by (induction js) (auto simp: tryBarEntry_eq[OF assms])

lemma tryPoint_eq:
  assumes "wellFormed b"
  shows "tryPoint b p dc used k i
         = Some (\<not> dieUsedAt used k
                 \<and> (isValidMove b (From i) (To (i - die dc k)) p (Some (die dc k)) = Some True
                    \<or> isValidMove b (From i) Off p (Some (die dc k)) = Some True))"
proof -
  obtain h where h: "allInHomeBoard b p = Some h" using allInHomeBoard_eq[OF assms] by blast
  show ?thesis
    using isValidMove_regular_eq[OF assms, of i "i - die dc k" p "die dc k"]
      isValidMove_off_eq[OF assms, of i p "die dc k"] h
    by (auto simp: tryPoint_def isInHomeBoard_def)
qed

lemma pointLoop_eq:
  assumes "wellFormed b" and "\<forall>i \<in> set js. 0 \<le> i \<and> i \<le> 23"
  shows "pointLoop b p dc used js
         = Some (\<exists>i \<in> set js. 0 < sel p (points b ! nat i) \<and>
             ((\<not> dieUsedAt used 0
                 \<and> (isValidMove b (From i) (To (i - die dc 0)) p (Some (die dc 0)) = Some True
                    \<or> isValidMove b (From i) Off p (Some (die dc 0)) = Some True))
            \<or> (\<not> dieUsedAt used 1
                 \<and> (isValidMove b (From i) (To (i - die dc 1)) p (Some (die dc 1)) = Some True
                    \<or> isValidMove b (From i) Off p (Some (die dc 1)) = Some True))))"
  using assms(2)
proof (induction js)
  case Nil
  then show ?case by simp
next
  case (Cons i js)
  then have "pointAt b i p = Some (sel p (points b ! nat i))"
    using wellFormed_pointAt[OF assms(1), of i p] by simp
  with Cons show ?case
    by (auto simp: tryPoint_eq[OF assms(1)])
qed

lemma from_move_cases:
  assumes w: "wellFormed b"
  shows "(\<exists>f dst. isValidMove b (From f) dst p (Some d) = Some True)
     \<longleftrightarrow> (\<exists>i \<in> set [0..23]. 0 < sel p (points b ! nat i)
            \<and> (isValidMove b (From i) (To (i - d)) p (Some d) = Some True
                \<or> isValidMove b (From i) Off p (Some d) = Some True))"
proof
  assume "\<exists>f dst. isValidMove b (From f) dst p (Some d) = Some True"
  then obtain f dst where v: "isValidMove b (From f) dst p (Some d) = Some True" by blast
  show "\<exists>i \<in> set [0..23]. 0 < sel p (points b ! nat i)
            \<and> (isValidMove b (From i) (To (i - d)) p (Some d) = Some True
                \<or> isValidMove b (From i) Off p (Some d) = Some True)"
  proof (cases dst)
    case Off
    with v isValidMove_off_eq[OF w, of f p d]
    have "0 \<le> f" "f \<le> 5" "1 \<le> sel p (points b ! nat f)" by simp_all
    with v Off show ?thesis by (intro bexI[of _ f]) simp_all
  next
    case (To t)
    with v isValidMove_regular_eq[OF w, of f t p d]
    have "0 \<le> t" "t < f" "f \<le> 23" "1 \<le> sel p (points b ! nat f)" "t = f - d" by auto
    with v To show ?thesis by (intro bexI[of _ f]) simp_all
  qed
next
  assume "\<exists>i \<in> set [0..23]. 0 < sel p (points b ! nat i)
            \<and> (isValidMove b (From i) (To (i - d)) p (Some d) = Some True
                \<or> isValidMove b (From i) Off p (Some d) = Some True)"
  then show "\<exists>f dst. isValidMove b (From f) dst p (Some d) = Some True" by blast
qed

lemma canPlayerMove_eq:
  assumes w: "wellFormed b"
  shows "canPlayerMove b p dc used
         = Some (if 1 \<le> sel p (bar b)
                 then (\<not> dieUsedAt used 0
                         \<and> (\<exists>t. isValidMove b Bar (To t) p (Some (die dc 0)) = Some True))
                    \<or> (\<not> dieUsedAt used 1
                         \<and> (\<exists>t. isValidMove b Bar (To t) p (Some (die dc 1)) = Some True))
                 else (\<not> dieUsedAt used 0
                         \<and> (\<exists>f dst. isValidMove b (From f) dst p (Some (die dc 0)) = Some True))
                    \<or> (\<not> dieUsedAt used 1
                         \<and> (\<exists>f dst. isValidMove b (From f) dst p (Some (die dc 1)) = Some True)))"
proof (cases "1 \<le> sel p (bar b)")
  case True
  have r: "(\<exists>i \<in> set [18..23]. isValidMove b Bar (To i) p (Some d) = Some True)
        \<longleftrightarrow> (\<exists>t. isValidMove b Bar (To t) p (Some d) = Some True)" for d
  proof
    assume "\<exists>t. isValidMove b Bar (To t) p (Some d) = Some True"
    then obtain t where t: "isValidMove b Bar (To t) p (Some d) = Some True" by blast
    with isValidMove_bar_eq[OF w, of t p "Some d"] have "18 \<le> t \<and> t \<le> 23" by simp
    then have "t \<in> set [18..23]" by (simp only: set_upto atLeastAtMost_iff)
    with t show "\<exists>i \<in> set [18..23]. isValidMove b Bar (To i) p (Some d) = Some True" by blast
  qed blast
  from True have "canPlayerMove b p dc used = barEntryLoop b p dc used [18..23]"
    by (simp add: canPlayerMove_def)
  also have "\<dots> = Some ((\<not> dieUsedAt used 0
                         \<and> (\<exists>t. isValidMove b Bar (To t) p (Some (die dc 0)) = Some True))
                    \<or> (\<not> dieUsedAt used 1
                         \<and> (\<exists>t. isValidMove b Bar (To t) p (Some (die dc 1)) = Some True)))"
    unfolding barEntryLoop_eq[OF w] r[symmetric] by blast
  finally show ?thesis using True by simp
next
  case False
  have "canPlayerMove b p dc used = pointLoop b p dc used [0..23]"
    using False by (simp add: canPlayerMove_def)
  also have "\<dots> = Some ((\<not> dieUsedAt used 0
                         \<and> (\<exists>f dst. isValidMove b (From f) dst p (Some (die dc 0)) = Some True))
                    \<or> (\<not> dieUsedAt used 1
                         \<and> (\<exists>f dst. isValidMove b (From f) dst p (Some (die dc 1)) = Some True)))"
    unfolding from_move_cases[OF w]
    by (subst pointLoop_eq[OF w]) (simp, blast)
  finally show ?thesis using False by simp
qed

text \<open>
  With a checker on the bar \<open>canPlayerMove\<close> looks at bar entries only, and those lie on
  indices 18..23.
\<close>

lemma canPlayerMove_bar_first:
  assumes "wellFormed b"
  shows "canPlayerMove b p dc used
         = Some (if 1 \<le> sel p (bar b)
                 then (\<not> dieUsedAt used 0
                         \<and> (\<exists>t. 18 \<le> t \<and> t \<le> 23
                                \<and> isValidMove b Bar (To t) p (Some (die dc 0)) = Some True))
                    \<or> (\<not> dieUsedAt used 1
                         \<and> (\<exists>t. 18 \<le> t \<and> t \<le> 23
                                \<and> isValidMove b Bar (To t) p (Some (die dc 1)) = Some True))
                 else (\<not> dieUsedAt used 0
                         \<and> (\<exists>f dst. isValidMove b (From f) dst p (Some (die dc 0)) = Some True))
                    \<or> (\<not> dieUsedAt used 1
                         \<and> (\<exists>f dst. isValidMove b (From f) dst p (Some (die dc 1)) = Some True)))"
proof -
  have r: "(\<exists>t. 18 \<le> t \<and> t \<le> 23 \<and> isValidMove b Bar (To t) p (Some d) = Some True)
       \<longleftrightarrow> (\<exists>t. isValidMove b Bar (To t) p (Some d) = Some True)" for d
  proof
    assume "\<exists>t. isValidMove b Bar (To t) p (Some d) = Some True"
    then obtain t where t: "isValidMove b Bar (To t) p (Some d) = Some True" by blast
    with isValidMove_bar_eq[OF assms, of t p "Some d"] have "18 \<le> t \<and> t \<le> 23" by simp
    with t show "\<exists>t. 18 \<le> t \<and> t \<le> 23 \<and> isValidMove b Bar (To t) p (Some d) = Some True"
      by blast
  qed blast
  show ?thesis
    unfolding r by (rule canPlayerMove_eq[OF assms])
qed

section \<open>Facts about the handlers\<close>

lemma chooseDie_value:
  "chooseDie room p d src dst = Some (Die k v) \<Longrightarrow> v = fst d \<or> v = snd d"
  by (cases src; cases dst)
     (auto simp: chooseDie_def die_def Let_def split: if_splits bind_splits)

text \<open>The roll handler never passes the turn; the move handler decides it in \<open>settleTurn\<close>.\<close>

lemma rollDiceHandler_turn:
  "currentPlayer (fst (rollDiceHandler room userId rolled)) = currentPlayer room"
  by (simp add: rollDiceHandler_def Let_def)

lemma settleTurn_turn:
  assumes "canPlayerMove (board room) p d (diceUsed room) = Some c"
  shows "currentPlayer (fst (settleTurn room p d))
           = (if list_all (\<lambda>used. used) (diceUsed room) \<or> \<not> c
              then opponent (currentPlayer room) else currentPlayer room)"
  using assms by (simp add: settleTurn_def Let_def split: option.splits)

text \<open>The boards of a room are reachable boards, hence well formed with fifteen checkers a side.\<close>

lemma rollDiceHandler_board: "board (fst (rollDiceHandler room userId rolled)) = board room"
  by (simp add: rollDiceHandler_def Let_def)

lemma settleTurn_board: "board (fst (settleTurn room p d)) = board room"
  by (simp add: settleTurn_def Let_def split: option.splits)

text \<open>The move handler either rejects, leaving the room, or applies an accepted move.\<close>

lemma makeMoveHandler_cases:
  obtains (rejected) msg where "makeMoveHandler room userId src dst = (room, [ErrorToSender msg])"
  | (accepted) d k v nb where "dice room = Some d"
      "currentPlayer room = playerNumberOf room userId"
      "chooseDie room (playerNumberOf room userId) d src dst = Some (Die k v)"
      "isValidMove (board room) src dst (playerNumberOf room userId) (Some v) = Some True"
      "makeMove (board room) src dst (playerNumberOf room userId) v = Some nb"
      "makeMoveHandler room userId src dst
         = settleTurn (room\<lparr>board := nb, diceUsed := markUsed (diceUsed room) k\<rparr>)
             (playerNumberOf room userId) d"
proof (cases "currentPlayer room = playerNumberOf room userId")
  case False
  then show ?thesis by (intro rejected) (simp add: makeMoveHandler_def Let_def)
next
  case turn: True
  show ?thesis
  proof (cases "dice room")
    case None
    with turn show ?thesis by (intro rejected) (simp add: makeMoveHandler_def Let_def)
  next
    case (Some d)
    note d = this
    show ?thesis
    proof (cases "chooseDie room (playerNumberOf room userId) d src dst")
      case None
      with turn d show ?thesis by (intro rejected) (simp add: makeMoveHandler_def Let_def)
    next
      case (Some c)
      note c = this
      show ?thesis
      proof (cases c)
        case NoDie
        with turn d c show ?thesis by (intro rejected) (simp add: makeMoveHandler_def Let_def)
      next
        case (Die k v)
        note die = this
        show ?thesis
        proof (cases "isValidMove (board room) src dst (playerNumberOf room userId) (Some v)")
          case None
          with turn d c die show ?thesis
            by (intro rejected) (simp add: makeMoveHandler_def Let_def)
        next
          case (Some ok)
          note ok = this
          show ?thesis
          proof (cases ok)
            case False
            with turn d c die ok show ?thesis
              by (intro rejected) (simp add: makeMoveHandler_def Let_def)
          next
            case True
            show ?thesis
            proof (cases "makeMove (board room) src dst (playerNumberOf room userId) v")
              case None
              with turn d c die ok True show ?thesis
                by (intro rejected) (simp add: makeMoveHandler_def Let_def)
            next
              case (Some nb)
              with turn d c die ok True show ?thesis
                by (intro accepted[of d k v nb]) (simp_all add: makeMoveHandler_def Let_def)
            qed
          qed
        qed
      qed
    qed
  qed
qed

lemma makeMoveHandler_reachable:
  assumes "reachable (board room)"
  shows "reachable (board (fst (makeMoveHandler room userId src dst)))"
proof (cases rule: makeMoveHandler_cases[of room userId src dst])
  case rejected
  with assms show ?thesis by simp
next
  case (accepted d k v nb)
  from reachable.step[OF assms accepted(4,5)] accepted(6) show ?thesis
    by (simp add: settleTurn_board)
qed

lemma handle_reachable: "reachable (board room) \<Longrightarrow> reachable (board (handle room a))"
  by (cases a) (simp_all add: rollDiceHandler_board makeMoveHandler_reachable)

lemma play_reachable: "reachable (board room) \<Longrightarrow> reachable (board (play room actions))"
  unfolding play_def
  by (induction actions arbitrary: room) (simp_all add: handle_reachable)

lemma newRoom_reachable: "reachable (board (newRoom gid p1 p2))"
  by (simp add: newRoom_def reachable.init)

lemma markUsed_length: "k < length usedDice \<Longrightarrow> length (markUsed usedDice k) = length usedDice"
  by (simp add: markUsed_def)

lemma chooseDie_index: "chooseDie room p d src dst = Some (Die k v) \<Longrightarrow> k < 2"
  by (cases src; cases dst)
     (auto simp: chooseDie_def Let_def split: if_splits bind_splits)

lemma settleTurn_flags:
  "flagsMatchDice room \<Longrightarrow> dice room = Some d \<Longrightarrow> flagsMatchDice (fst (settleTurn room p d))"
  by (simp add: settleTurn_def flagsMatchDice_def Let_def split: option.splits)

lemma handle_flags: "flagsMatchDice room \<Longrightarrow> flagsMatchDice (handle room a)"
proof (cases a)
  case (Roll u rolled)
  assume "flagsMatchDice room"
  with Roll show ?thesis
    by (auto simp: rollDiceHandler_def flagsMatchDice_def Let_def split: option.splits)
next
  case (Move u src dst)
  assume f: "flagsMatchDice room"
  show ?thesis
  proof (cases rule: makeMoveHandler_cases[of room u src dst])
    case rejected
    with f Move show ?thesis by simp
  next
    case (accepted d k v nb)
    from f accepted(1) have len: "length (diceUsed room) = 2" by (simp add: flagsMatchDice_def)
    with chooseDie_index[OF accepted(3)]
    have "length (markUsed (diceUsed room) k) = 2" by (simp add: markUsed_length)
    with accepted(1)
    have "flagsMatchDice (room\<lparr>board := nb, diceUsed := markUsed (diceUsed room) k\<rparr>)"
      by (simp add: flagsMatchDice_def)
    from settleTurn_flags[OF this, of d "playerNumberOf room u"] accepted(1,6) Move
    show ?thesis by simp
  qed
qed

lemma play_flags: "flagsMatchDice room \<Longrightarrow> flagsMatchDice (play room actions)"
  unfolding play_def
  by (induction actions arbitrary: room) (simp_all add: handle_flags)

lemma stuckRoom_eq:
  "stuckRoom = \<lparr> gameId = ''g'', board = blockedBoard, player1Id = ''u1'', player2Id = ''u2'',
                 currentPlayer = P1, dice = Some (6, 6), diceUsed = [False, False] \<rparr>"
  by code_simp

lemma wellFormed_blockedBoard: "wellFormed blockedBoard"
  by code_simp

lemma blockedBoard_cannot_move: "canPlayerMove blockedBoard P1 (6, 6) [False, False] = Some False"
  by code_simp

lemma blockedBoard_no_move:
  "isValidMove blockedBoard src dst P1 (Some 6) = Some False"
proof -
  obtain r where r: "isValidMove blockedBoard src dst P1 (Some 6) = Some r"
    using isValidMove_total[OF wellFormed_blockedBoard] by blast
  have "\<not> r"
  proof
    assume "r"
    with r have v: "isValidMove blockedBoard src dst P1 (Some 6) = Some True" by simp
    show False
    proof (cases src)
      case Bar
      with v isValidMove_bar_eq[OF wellFormed_blockedBoard, of _ P1 "Some 6"] show False
        by (cases dst) (simp_all add: isValidMove_def blockedBoard_def)
    next
      case (From f)
      with v have "\<exists>f dst. isValidMove blockedBoard (From f) dst P1 (Some 6) = Some True" by blast
      with canPlayerMove_eq[OF wellFormed_blockedBoard, of P1 "(6, 6)" "[False, False]"]
        blockedBoard_cannot_move
      show False by (simp add: die_def dieUsedAt_def blockedBoard_def)
    qed
  qed
  with r show ?thesis by simp
qed

section \<open>The two parts of the make-move handler and their interleavings\<close>

text \<open>Run one after the other, the two parts are the handler.\<close>

lemma moveAfterInsert_settleTurn:
  "dice room = Some d \<Longrightarrow> moveAfterInsert room p = settleTurn room p d"
  by (simp add: moveAfterInsert_def settleTurn_def)

lemma parts_are_the_handler:
  "makeMoveHandler room userId src dst
     = (case moveUntilInsert room userId src dst of
          Inl msg \<Rightarrow> (room, [ErrorToSender msg])
        | Inr (room1, playerNumber) \<Rightarrow> moveAfterInsert room1 playerNumber)"
  by (simp add: makeMoveHandler_def moveUntilInsert_def Let_def moveAfterInsert_settleTurn
           split: option.splits DieChoice.splits bool.splits)

lemma schedules_are_the_interleavings:
  "set schedules = shuffles [True, True] [False, False]"
  by (auto simp: schedules_def)

lemma segment_whole:
  "fst (segment (fst (segment room a Ready)) a (snd (segment room a Ready))) = handle room a"
proof (cases a)
  case (Roll u rolled)
  then show ?thesis by simp
next
  case (Move u src dst)
  then show ?thesis
    by (cases "moveUntilInsert room u src dst")
       (auto simp: parts_are_the_handler)
qed

lemma segment_done:
  "snd (segment (fst (segment room a Ready)) a (snd (segment room a Ready))) = Finished"
proof (cases a)
  case (Roll u rolled)
  then show ?thesis by simp
next
  case (Move u src dst)
  then show ?thesis
    by (cases "moveUntilInsert room u src dst") auto
qed

lemma serial_schedules:
  "fst (interleave a b (room, Ready, Ready) [True, True, False, False]) = play room [a, b]"
  "fst (interleave a b (room, Ready, Ready) [False, False, True, True]) = play room [b, a]"
  using segment_whole[of room a] segment_whole[of "handle room a" b]
        segment_whole[of room b] segment_whole[of "handle room b" a]
  by (auto simp: play_def split: prod.splits)

text \<open>
  Between the two parts of an applied move the dice are still set, so every roll is
  rejected there, as it is before the move.
\<close>

lemma moveUntilInsert_applied:
  assumes "moveUntilInsert room u src dst = Inr (room1, p)"
  shows "currentPlayer room = p" "currentPlayer room1 = p" "dice room \<noteq> None" "dice room1 = dice room"
  using assms
  by (auto simp: moveUntilInsert_def Let_def
           split: if_splits option.splits DieChoice.splits bool.splits)

lemma rollDiceHandler_rejected:
  "dice room \<noteq> None \<Longrightarrow> fst (rollDiceHandler room u rolled) = room"
  by (simp add: rollDiceHandler_def Let_def)

lemma handle_move:
  "fst (makeMoveHandler room u src dst)
     = (case moveUntilInsert room u src dst of
          Inl msg \<Rightarrow> room
        | Inr (room1, p) \<Rightarrow> fst (moveAfterInsert room1 p))"
  by (simp add: parts_are_the_handler split: sum.splits)

text \<open>
  A roll handler interleaved with any handler leaves the room as one of the two serial
  orders does: its assignments are not split by an await.
\<close>

lemma roll_then_move:
  assumes "s \<in> set schedules"
  shows "fst (interleave (Roll u rolled) (Move u' src dst) (room, Ready, Ready) s)
           = play room [Roll u rolled, Move u' src dst]
       \<or> fst (interleave (Roll u rolled) (Move u' src dst) (room, Ready, Ready) s)
           = play room [Move u' src dst, Roll u rolled]"
proof (cases "moveUntilInsert room u' src dst")
  case (Inl msg)
  show ?thesis
  proof (cases "moveUntilInsert (fst (rollDiceHandler room u rolled)) u' src dst")
    case rejected: (Inl msg')
    with Inl assms show ?thesis
      by (auto simp: schedules_def play_def handle_move)
  next
    case (Inr applied)
    with Inl assms show ?thesis
      by (cases applied) (auto simp: schedules_def play_def handle_move)
  qed
next
  case (Inr applied)
  obtain room1 p where applied: "applied = (room1, p)" by (cases applied)
  from moveUntilInsert_applied[OF Inr[unfolded applied]]
  have r: "fst (rollDiceHandler room u rolled) = room" "fst (rollDiceHandler room1 u rolled) = room1"
    by (simp_all add: rollDiceHandler_rejected)
  from Inr applied r assms show ?thesis
    by (auto simp: schedules_def play_def handle_move)
qed

lemma roll_then_roll:
  assumes "s \<in> set schedules"
  shows "fst (interleave (Roll u rolled) (Roll u' rolled') (room, Ready, Ready) s)
           = play room [Roll u rolled, Roll u' rolled']
       \<or> fst (interleave (Roll u rolled) (Roll u' rolled') (room, Ready, Ready) s)
           = play room [Roll u' rolled', Roll u rolled]"
  using assms by (auto simp: schedules_def play_def)

lemma move_then_roll:
  assumes "s \<in> set schedules"
  shows "fst (interleave (Move u' src dst) (Roll u rolled) (room, Ready, Ready) s)
           = play room [Move u' src dst, Roll u rolled]
       \<or> fst (interleave (Move u' src dst) (Roll u rolled) (room, Ready, Ready) s)
           = play room [Roll u rolled, Move u' src dst]"
proof (cases "moveUntilInsert room u' src dst")
  case (Inl msg)
  show ?thesis
  proof (cases "moveUntilInsert (fst (rollDiceHandler room u rolled)) u' src dst")
    case rejected: (Inl msg')
    with Inl assms show ?thesis
      by (auto simp: schedules_def play_def handle_move)
  next
    case (Inr applied)
    with Inl assms show ?thesis
      by (cases applied) (auto simp: schedules_def play_def handle_move)
  qed
next
  case (Inr applied)
  obtain room1 p where applied: "applied = (room1, p)" by (cases applied)
  from moveUntilInsert_applied[OF Inr[unfolded applied]]
  have r: "fst (rollDiceHandler room u rolled) = room" "fst (rollDiceHandler room1 u rolled) = room1"
    by (simp_all add: rollDiceHandler_rejected)
  from Inr applied r assms show ?thesis
    by (auto simp: schedules_def play_def handle_move)
qed

lemma roll_interleavings_serial:
  assumes "isRoll a \<or> isRoll b" and "s \<in> set schedules"
  shows "fst (interleave a b (room, Ready, Ready) s) = play room [a, b]
       \<or> fst (interleave a b (room, Ready, Ready) s) = play room [b, a]"
  using assms roll_then_move roll_then_roll move_then_roll
  by (cases a; cases b) (simp_all add: isRoll_def)

text \<open>
  C1. A move that \<open>isValidMove\<close> accepts for a die value is applied by \<open>makeMove\<close>
  without an exception, and the new board again has, for each player, fifteen checkers
  counted over the 24 points, the bar and the borne-off tray, whenever the old board has.
  Hence every board reachable from the initial board by accepted moves has this count.
\<close>

theorem makeMove_keeps_fifteen:
  "(isValidMove b src dst p (Some d) = Some True \<and> fifteen b \<longrightarrow>
      (\<exists>b'. makeMove b src dst p d = Some b' \<and> fifteen b'))
   \<and> (reachable b \<longrightarrow> fifteen b)"
  using makeMove_defined[of b src dst p "Some d" d] makeMove_fifteen reachable_fifteen
  by blast


theorem makeMove_keeps_fifteen_witness:
  "isValidMove initializeBoard (From 12) (To 11) P1 (Some 1) = Some True
   \<and> fifteen initializeBoard
   \<and> makeMove initializeBoard (From 12) (To 11) P1 1 = Some afterFirstMove
   \<and> fifteen afterFirstMove
   \<and> reachable afterFirstMove"
proof -
  have v: "isValidMove initializeBoard (From 12) (To 11) P1 (Some 1) = Some True"
    by code_simp
  have f: "fifteen initializeBoard"
    by code_simp
  have m: "makeMove initializeBoard (From 12) (To 11) P1 1 = Some afterFirstMove"
    by code_simp
  have r: "reachable afterFirstMove"
    using reachable.step[OF reachable_initializeBoard v m] .
  from makeMove_keeps_fifteen[of initializeBoard "From 12" "To 11" P1 1] v f m
  have "fifteen afterFirstMove" by simp
  moreover from makeMove_keeps_fifteen[of afterFirstMove] r have "fifteen afterFirstMove" by simp
  ultimately show ?thesis using v f m r by simp
qed

section \<open>The turn after a roll\<close>

text \<open>
  C2. The claim asks that the turn never stays with a player who has no legal move with
  the unused dice, also right after a roll. The move handler passes the turn when
  \<open>canPlayerMove\<close> is false (\<open>settleTurn_turn\<close>); the roll handler never does
  (\<open>rollDiceHandler_turn\<close>). In \<open>stuckRoom\<close>, reached from a fresh room by accepted rolls
  and moves, player 1 has just rolled two sixes: it is still player 1's turn, the dice are
  set and unused, \<open>canPlayerMove\<close> is false, and every further roll or move, by either
  user, leaves the room as it is.
\<close>

theorem roll_without_legal_move_keeps_turn:
  "currentPlayer stuckRoom = P1 \<and> dice stuckRoom = Some (6, 6)
   \<and> diceUsed stuckRoom = [False, False]
   \<and> canPlayerMove (board stuckRoom) P1 (6, 6) (diceUsed stuckRoom) = Some False
   \<and> (\<forall>a. handle stuckRoom a = stuckRoom)"
proof -
  have "handle stuckRoom a = stuckRoom" for a
  proof (cases a)
    case (Roll u rolled)
    then show ?thesis
      by (simp add: stuckRoom_eq rollDiceHandler_def playerNumberOf_def Let_def)
  next
    case (Move u src dst)
    show ?thesis
    proof (cases "u = ''u1''")
      case False
      with Move show ?thesis
        by (simp add: stuckRoom_eq makeMoveHandler_def playerNumberOf_def Let_def)
    next
      case True
      have six: "chooseDie stuckRoom P1 (6, 6) src dst = Some (Die k v) \<Longrightarrow> v = 6" for k v
        using chooseDie_value[of stuckRoom P1 "(6, 6)" src dst k v] by simp
      show ?thesis
      proof (cases "chooseDie stuckRoom P1 (6, 6) src dst")
        case None
        with Move True show ?thesis
          by (simp add: stuckRoom_eq makeMoveHandler_def playerNumberOf_def Let_def)
      next
        case (Some c)
        show ?thesis
        proof (cases c)
          case NoDie
          with Some Move True show ?thesis
            by (simp add: stuckRoom_eq makeMoveHandler_def playerNumberOf_def Let_def)
        next
          case (Die k v)
          with Some six have "v = 6" by simp
          with Die Some Move True blockedBoard_no_move[of src dst] show ?thesis
            by (simp add: stuckRoom_eq makeMoveHandler_def playerNumberOf_def Let_def)
        qed
      qed
    qed
  qed
  then show ?thesis
    using blockedBoard_cannot_move by (simp add: stuckRoom_eq)
qed

section \<open>Entering from the bar\<close>

text \<open>
  C4. On a well-formed board, \<open>isValidMove\<close> from the bar without a die value returns true
  exactly when the player has at least one checker on the bar, the destination is an
  index in 18..23 and that point holds at most one opposing checker; with a die value
  \<open>d\<close> it requires in addition that the destination is \<open>(24 - d) - 1\<close>. The destination
  \<open>'off'\<close> is never accepted from the bar.
\<close>

theorem bar_entry_accepted_iff:
  assumes "wellFormed b"
  shows "isValidMove b Bar Off p dv = Some False
       \<and> isValidMove b Bar (To t) p None
           = Some (1 \<le> sel p (bar b) \<and> 18 \<le> t \<and> t \<le> 23
                   \<and> sel (opponent p) (points b ! nat t) \<le> 1)
       \<and> isValidMove b Bar (To t) p (Some d)
           = Some (1 \<le> sel p (bar b) \<and> 18 \<le> t \<and> t \<le> 23
                   \<and> sel (opponent p) (points b ! nat t) \<le> 1 \<and> t = (24 - d) - 1)"
  using isValidMove_bar_eq[OF assms, of t p None]
    isValidMove_bar_eq[OF assms, of t p "Some d"]
  by (simp add: isValidMove_def)

text \<open>
  C4, witness: on \<open>barredBoard\<close> player 1 may enter on index 22, with no die given and
  with a 1, and may not enter on index 18 with a 5.
\<close>

theorem bar_entry_accepted_iff_witness:
  "wellFormed barredBoard
   \<and> isValidMove barredBoard Bar (To 22) P1 None = Some True
   \<and> isValidMove barredBoard Bar (To 22) P1 (Some 1) = Some True
   \<and> isValidMove barredBoard Bar (To 18) P1 (Some 5) = Some False"
proof -
  have w: "wellFormed barredBoard" by code_simp
  have a: "1 \<le> sel P1 (bar barredBoard)" by code_simp
  have b: "sel (opponent P1) (points barredBoard ! nat 22) \<le> 1" by code_simp
  have c: "\<not> sel (opponent P1) (points barredBoard ! nat 18) \<le> 1" by code_simp
  from bar_entry_accepted_iff[OF w, of P1 None 22 1] a b
  have "isValidMove barredBoard Bar (To 22) P1 None = Some True"
    and "isValidMove barredBoard Bar (To 22) P1 (Some 1) = Some True" by simp_all
  moreover from bar_entry_accepted_iff[OF w, of P1 None 18 5] c
  have "isValidMove barredBoard Bar (To 18) P1 (Some 5) = Some False" by simp
  ultimately show ?thesis using w by simp
qed

section \<open>Bearing off\<close>

text \<open>
  C5. On a well-formed board with \<open>allInHomeBoard\<close> true for the player, bearing off with
  die \<open>d\<close> from an index \<open>f\<close> in 0..5 that holds a checker of the player is accepted exactly
  when \<open>f + 1 = d\<close>, or \<open>f + 1 < d\<close> and the player has no checker on an index above \<open>f\<close> up
  to 5. When \<open>allInHomeBoard\<close> is false, no bear-off is accepted, with or without a die.
\<close>

theorem bear_off_accepted_iff:
  assumes "wellFormed b"
  shows "(allInHomeBoard b p = Some True \<and> 0 \<le> f \<and> f \<le> 5 \<and> 1 \<le> sel p (points b ! nat f)
            \<longrightarrow> isValidMove b (From f) Off p (Some d)
                = Some (f + 1 = d
                        \<or> (f + 1 < d \<and> (\<forall>i. f < i \<and> i \<le> 5 \<longrightarrow> sel p (points b ! nat i) = 0))))
       \<and> (allInHomeBoard b p = Some False \<longrightarrow> isValidMove b src Off p dv = Some False)"
proof (intro conjI impI)
  assume "allInHomeBoard b p = Some False"
  then show "isValidMove b src Off p dv = Some False"
    by (cases src) (simp_all add: isValidMove_def)
next
  assume "allInHomeBoard b p = Some True \<and> 0 \<le> f \<and> f \<le> 5 \<and> 1 \<le> sel p (points b ! nat f)"
  then show "isValidMove b (From f) Off p (Some d)
        = Some (f + 1 = d \<or> (f + 1 < d \<and> (\<forall>i. f < i \<and> i \<le> 5 \<longrightarrow> sel p (points b ! nat i) = 0)))"
    using isValidMove_off_eq[OF assms, of f p d] by simp
qed

text \<open>
  C5, witness: on \<open>bearOffBoard\<close> player 1 bears off from index 3 with a 6, so indices 4
  and 5 hold none of player 1's checkers; on the initial board, where not all of player
  1's checkers are home, bearing off from index 5 with a 6 is rejected.
\<close>

theorem bear_off_accepted_iff_witness:
  "wellFormed bearOffBoard
   \<and> allInHomeBoard bearOffBoard P1 = Some True
   \<and> 1 \<le> sel P1 (points bearOffBoard ! nat 3)
   \<and> isValidMove bearOffBoard (From 3) Off P1 (Some 6) = Some True
   \<and> sel P1 (points bearOffBoard ! nat 4) = 0
   \<and> sel P1 (points bearOffBoard ! nat 5) = 0
   \<and> wellFormed initializeBoard
   \<and> allInHomeBoard initializeBoard P1 = Some False
   \<and> isValidMove initializeBoard (From 5) Off P1 (Some 6) = Some False"
proof -
  have w: "wellFormed bearOffBoard" by code_simp
  have h: "allInHomeBoard bearOffBoard P1 = Some True" by code_simp
  have c: "1 \<le> sel P1 (points bearOffBoard ! nat 3)" by code_simp
  have v: "isValidMove bearOffBoard (From 3) Off P1 (Some 6) = Some True" by code_simp
  from bear_off_accepted_iff[OF w, of P1 3 6] h c v
  have clear: "\<forall>i. 3 < i \<and> i \<le> 5 \<longrightarrow> sel P1 (points bearOffBoard ! nat i) = 0" by simp
  have c4: "sel P1 (points bearOffBoard ! nat 4) = 0" using clear by (elim allE[of _ 4]) simp
  have c5: "sel P1 (points bearOffBoard ! nat 5) = 0" using clear by (elim allE[of _ 5]) simp
  have w0: "wellFormed initializeBoard" by code_simp
  have h0: "allInHomeBoard initializeBoard P1 = Some False" by code_simp
  from bear_off_accepted_iff[OF w0, of P1 _ _ "From 5" "Some 6"] h0
  have "isValidMove initializeBoard (From 5) Off P1 (Some 6) = Some False" by simp
  with w h c v c4 c5 w0 h0 show ?thesis by simp
qed

section \<open>The any-legal-move test\<close>

text \<open>
  C6. The claim makes \<open>canPlayerMove\<close> false exactly when no unused die has a move that
  \<open>isValidMove\<close> accepts, and lets only bar entries count while the player has a checker
  on the bar. \<open>canPlayerMove\<close> keeps to that (\<open>canPlayerMove_bar_first\<close>, and its comment
  \<open>must enter first\<close>); the regular branch of \<open>isValidMove\<close> never reads \<open>board.bar\<close>. On
  the board of \<open>barredRoom\<close> player 1 has a checker on the bar and two unused fives, index
  18 is held by player 2: \<open>canPlayerMove\<close> is false, \<open>isValidMove\<close> accepts the move from
  index 12 to index 7 with a five, and the make-move handler applies it, the checker
  staying on the bar.
\<close>

theorem ordinary_move_accepted_on_bar:
  "board barredRoom = barredBoard
   \<and> currentPlayer barredRoom = P1
   \<and> dice barredRoom = Some (5, 5) \<and> diceUsed barredRoom = [False, False]
   \<and> sel P1 (bar barredBoard) = 1
   \<and> canPlayerMove barredBoard P1 (5, 5) [False, False] = Some False
   \<and> isValidMove barredBoard (From 12) (To 7) P1 (Some 5) = Some True
   \<and> points (board (fst (makeMoveHandler barredRoom ''u1'' (From 12) (To 7)))) ! 12 = (2, 0)
   \<and> points (board (fst (makeMoveHandler barredRoom ''u1'' (From 12) (To 7)))) ! 7 = (1, 0)
   \<and> bar (board (fst (makeMoveHandler barredRoom ''u1'' (From 12) (To 7)))) = (1, 0)"
  by code_simp

section \<open>Two make-move handlers at once\<close>

text \<open>
  C3. The claim asks that two handlers of one room, however their segments interleave,
  leave the room as one of the two serial orders does. The roll handler does
  (\<open>roll_interleavings_serial\<close>). The make-move handler awaits its insert between marking
  the die and deciding the turn. In \<open>barredRoom\<close>, with the second handler's first part
  run between the two parts of the first (the second schedule of \<open>schedules\<close>), two moves
  from index 12 to index 7 are both applied, and so are a move from index 12 and one from
  index 10; handled one after the other, in either order, the first one passes the turn
  and the second is rejected with \<open>Not your turn\<close>.
\<close>

theorem two_moves_interleaved_not_serial:
  "[True, False, True, False] \<in> set schedules
   \<and> points (board racedTwice) ! 12 = (1, 0) \<and> points (board racedTwice) ! 7 = (2, 0)
   \<and> currentPlayer racedTwice = P2 \<and> dice racedTwice = None
   \<and> points (board (play barredRoom [moveFrom12, moveFrom12])) ! 12 = (2, 0)
   \<and> points (board (play barredRoom [moveFrom12, moveFrom12])) ! 7 = (1, 0)
   \<and> racedTwice \<noteq> play barredRoom [moveFrom12, moveFrom12]
   \<and> points (board racedBoth) ! 12 = (2, 0) \<and> points (board racedBoth) ! 10 = (0, 0)
   \<and> points (board (play barredRoom [moveFrom12, moveFrom10])) ! 12 = (2, 0)
   \<and> points (board (play barredRoom [moveFrom12, moveFrom10])) ! 10 = (1, 0)
   \<and> points (board (play barredRoom [moveFrom10, moveFrom12])) ! 12 = (3, 0)
   \<and> points (board (play barredRoom [moveFrom10, moveFrom12])) ! 10 = (0, 0)
   \<and> racedBoth \<noteq> play barredRoom [moveFrom12, moveFrom10]
   \<and> racedBoth \<noteq> play barredRoom [moveFrom10, moveFrom12]"
  by code_simp

section \<open>Dice duel\<close>

text \<open>
  C7, as stated, fails: after player 1 rolls 5 and player 2 rolls 3 in the first round,
  \<open>round_winner\<close> is not 1.
\<close>

theorem first_round_counterexample:
  "round_winner (processDiceRoll (processDiceRoll (initializeDiceGame ''game'') P1 5) P2 3)
     \<noteq> Some (Won P1)"
  by (simp add: processDiceRoll_def recordRoll_def afterRoll_def decideRound_def nextRound_def
        initializeDiceGame_def)

text \<open>
  C7, amended. After that round, player 1's score is 1, the round is 2, both rolls are
  null again and \<open>round_winner\<close> is null again: apart from the score, the round and the
  player to roll next (player 2), the state is the initial one.
\<close>

theorem first_round_5_3:
  "processDiceRoll (processDiceRoll (initializeDiceGame gid) P1 5) P2 3
     = (initializeDiceGame gid)\<lparr>player1_score := 1, current_round := 2, current_player := P2\<rparr>
   \<and> player1_score (processDiceRoll (processDiceRoll (initializeDiceGame gid) P1 5) P2 3) = 1
   \<and> round_winner (processDiceRoll (processDiceRoll (initializeDiceGame gid) P1 5) P2 3) = None
   \<and> current_round (processDiceRoll (processDiceRoll (initializeDiceGame gid) P1 5) P2 3) = 2
   \<and> player1_roll (processDiceRoll (processDiceRoll (initializeDiceGame gid) P1 5) P2 3) = None
   \<and> player2_roll (processDiceRoll (processDiceRoll (initializeDiceGame gid) P1 5) P2 3) = None"
  by (simp add: processDiceRoll_def recordRoll_def afterRoll_def decideRound_def nextRound_def
        initializeDiceGame_def)

lemma processDiceRoll_waiting:
  assumes "(case p of P1 \<Rightarrow> player2_roll s | P2 \<Rightarrow> player1_roll s) = None"
  shows "processDiceRoll s p r = recordRoll s p r \<lparr>current_player := opponent p\<rparr>"
  using assms
  by (cases p) (simp_all add: processDiceRoll_def recordRoll_def afterRoll_def)

lemma processDiceRoll_store_eq:
  assumes "g < length store"
  shows "processDiceRoll_store store g p r = (store @ [processDiceRoll (store ! g) p r], length store)"
  using assms
  by (simp add: processDiceRoll_store_def processDiceRoll_def Let_def nth_append)

text \<open>
  C10. When the player other than the roller has no roll recorded for the round,
  \<open>processDiceRoll\<close> records the roll and hands the turn to the other player; the scores,
  the round, \<open>round_winner\<close> and \<open>game_winner\<close> stay as they are. On the store, the object
  passed in and every other object present before the call are unchanged, and the result
  is a new object.
\<close>

theorem processDiceRoll_frame:
  assumes "(case p of P1 \<Rightarrow> player2_roll s | P2 \<Rightarrow> player1_roll s) = None"
  shows "processDiceRoll s p r
           = (case p of P1 \<Rightarrow> s\<lparr>player1_roll := Some r, current_player := P2\<rparr>
                      | P2 \<Rightarrow> s\<lparr>player2_roll := Some r, current_player := P1\<rparr>)
       \<and> player1_score (processDiceRoll s p r) = player1_score s
       \<and> player2_score (processDiceRoll s p r) = player2_score s
       \<and> current_round (processDiceRoll s p r) = current_round s
       \<and> round_winner (processDiceRoll s p r) = round_winner s
       \<and> game_winner (processDiceRoll s p r) = game_winner s
       \<and> (g < length store \<and> store ! g = s \<longrightarrow>
            fst (processDiceRoll_store store g p r) ! g = s
            \<and> take (length store) (fst (processDiceRoll_store store g p r)) = store
            \<and> snd (processDiceRoll_store store g p r) = length store
            \<and> fst (processDiceRoll_store store g p r) ! snd (processDiceRoll_store store g p r)
                = processDiceRoll s p r)"
  using assms
  by (cases p)
     (auto simp: processDiceRoll_waiting recordRoll_def processDiceRoll_store_eq nth_append)

text \<open>C10, witness: player 1's first roll of a game, a 5, on a store that holds the game.\<close>

theorem processDiceRoll_frame_witness:
  "player2_roll (initializeDiceGame ''g'') = None
   \<and> processDiceRoll (initializeDiceGame ''g'') P1 5
       = (initializeDiceGame ''g'')\<lparr>player1_roll := Some 5, current_player := P2\<rparr>
   \<and> fst (processDiceRoll_store [initializeDiceGame ''g''] 0 P1 5) ! 0 = initializeDiceGame ''g''
   \<and> snd (processDiceRoll_store [initializeDiceGame ''g''] 0 P1 5) = 1"
proof -
  have n: "(case P1 of P1 \<Rightarrow> player2_roll (initializeDiceGame ''g'')
                     | P2 \<Rightarrow> player1_roll (initializeDiceGame ''g'')) = None"
    by (simp add: initializeDiceGame_def)
  from processDiceRoll_frame[OF n, where g = 0 and store = "[initializeDiceGame ''g'']" and r = 5] n
  show ?thesis by simp
qed

section \<open>The initial board\<close>

text \<open>
  C8, as stated, fails: player 2 has no checker on index 0, player 1 has two on index 23.
\<close>

theorem initializeBoard_mirror_counterexample:
  "sel P2 (points initializeBoard ! 0) \<noteq> sel P1 (points initializeBoard ! (23 - 0))"
  by code_simp

text \<open>
  C8, amended. \<open>initializeBoard\<close> returns a fixed layout of 24 points: player 1 has 5, 3, 5
  and 2 checkers on indices 5, 8, 12 and 23, player 2 has 3, 5, 2 and 5 checkers on
  indices 3, 6, 17 and 18, fifteen each; both bar counts and both borne-off counts are 0
  and \<open>dice\<close> is null. Player 2's counts are not player 1's counts read from index 23
  downwards. In the revision with one home quadrant per player they are.
\<close>

theorem initializeBoard_layout:
  "points initializeBoard =
    [(0, 0), (0, 0), (0, 0), (0, 3), (0, 0), (5, 0), (0, 5), (0, 0), (3, 0),
     (0, 0), (0, 0), (0, 0), (5, 0), (0, 0), (0, 0), (0, 0), (0, 0), (0, 2),
     (0, 5), (0, 0), (0, 0), (0, 0), (0, 0), (2, 0)]
   \<and> filter (\<lambda>c. c \<noteq> 0) (map (sel P1) (points initializeBoard)) = [5, 3, 5, 2]
   \<and> filter (\<lambda>c. c \<noteq> 0) (map (sel P2) (points initializeBoard)) = [3, 5, 2, 5]
   \<and> onPoints initializeBoard P1 = 15 \<and> onPoints initializeBoard P2 = 15
   \<and> bar initializeBoard = (0, 0) \<and> borne_off initializeBoard = (0, 0)
   \<and> board_dice initializeBoard = None
   \<and> map (sel P2) (points initializeBoard) \<noteq> rev (map (sel P1) (points initializeBoard))
   \<and> map (sel P2) (points initializeBoard_separate_home)
       = rev (map (sel P1) (points initializeBoard_separate_home))"
  by code_simp

section \<open>Rejected moves\<close>

text \<open>
  C9. When the dice are set and the move handler finds no unused die for the submitted
  move (\<open>dieUsed\<close> stays -1, or the search for a die raises), or finds one and
  \<open>isValidMove\<close> does not accept the move for its value, the handler sends one error
  message to the sender and nothing else, and leaves the room, with its board, dice, used
  flags and current player, as it was.
\<close>

theorem makeMoveHandler_rejection:
  assumes "dice room = Some d"
    and "chooseDie room (playerNumberOf room userId) d src dst = None
         \<or> chooseDie room (playerNumberOf room userId) d src dst = Some NoDie
         \<or> (\<exists>k v. chooseDie room (playerNumberOf room userId) d src dst = Some (Die k v)
                \<and> isValidMove (board room) src dst (playerNumberOf room userId) (Some v)
                      \<noteq> Some True)"
  shows "\<exists>msg. makeMoveHandler room userId src dst = (room, [ErrorToSender msg])"
  using assms by (auto simp: makeMoveHandler_def Let_def split: option.splits bool.splits)

text \<open>
  C9, witness: with 6 and 5 rolled on the initial board, player 1's move from index 12 to
  index 6 matches the 6 and is rejected, player 2 holding index 6.
\<close>

theorem makeMoveHandler_rejection_witness:
  "dice openingRoom = Some (6, 5)
   \<and> chooseDie openingRoom (playerNumberOf openingRoom ''u1'') (6, 5) (From 12) (To 6)
       = Some (Die 0 6)
   \<and> isValidMove (board openingRoom) (From 12) (To 6) (playerNumberOf openingRoom ''u1'') (Some 6)
       = Some False
   \<and> makeMoveHandler openingRoom ''u1'' (From 12) (To 6)
       = (openingRoom, [ErrorToSender ''Invalid move''])"
proof -
  have d: "dice openingRoom = Some (6, 5)" by code_simp
  have c: "chooseDie openingRoom (playerNumberOf openingRoom ''u1'') (6, 5) (From 12) (To 6)
             = Some (Die 0 6)" by code_simp
  have v: "isValidMove (board openingRoom) (From 12) (To 6) (playerNumberOf openingRoom ''u1'')
             (Some 6) = Some False" by code_simp
  have t: "currentPlayer openingRoom = playerNumberOf openingRoom ''u1''" by code_simp
  from makeMoveHandler_rejection[OF d, of "''u1''" "From 12" "To 6"] c v
  obtain msg where m: "makeMoveHandler openingRoom ''u1'' (From 12) (To 6)
                        = (openingRoom, [ErrorToSender msg])" by auto
  moreover have "snd (makeMoveHandler openingRoom ''u1'' (From 12) (To 6))
                   = [ErrorToSender ''Invalid move'']"
    using d c v t by (simp add: makeMoveHandler_def Let_def)
  ultimately show ?thesis using d c v by simp
qed

end
